theory Spec2Isabelle
  imports Complex_Main
begin

section \<open>Recurring expenses of Spendwizer\<close>

text \<open>
  The development embeds \<^verbatim>\<open>processRecurringExpenses\<close> of \<^verbatim>\<open>src/App.tsx\<close>
  (lines 82 to 126), the data it works on (\<^verbatim>\<open>RecurringRule\<close> and \<^verbatim>\<open>Expense\<close> of
  the types file) and the two storage operations it calls.

  The function reads the clock, the time zone of the machine and a random id
  generator. These are inputs of the model, collected in the record \<open>env\<close>.
  The library calls (\<^verbatim>\<open>new Date(string)\<close> of ECMAScript, and \<^verbatim>\<open>isBefore\<close>,
  \<^verbatim>\<open>isToday\<close>, \<^verbatim>\<open>addDays\<close>, \<^verbatim>\<open>format\<close> of date-fns) are modelled on time
  values: an integer number of milliseconds since 1970-01-01T00:00Z.
\<close>

subsection \<open>The proleptic Gregorian calendar\<close>

definition msPerDay :: int where
  "msPerDay = 86400000"

definition leapYear :: "int \<Rightarrow> bool" where
  "leapYear y = (y mod 4 = 0 \<and> (y mod 100 \<noteq> 0 \<or> y mod 400 = 0))"

definition daysInMonth :: "int \<Rightarrow> int \<Rightarrow> int" where
  "daysInMonth y m =
     (if m = 2 then (if leapYear y then 29 else 28)
      else if m = 4 \<or> m = 6 \<or> m = 9 \<or> m = 11 then 30 else 31)"

text \<open>Days of March-based months before month index \<open>mp\<close> (0 = March, 11 = February).\<close>

definition daysBeforeMonth :: "int \<Rightarrow> int" where
  "daysBeforeMonth mp = (153 * mp + 2) div 5"

text \<open>Days in \<open>yoe\<close> whole years of a 400-year era whose years start on 1 March.\<close>

definition daysBeforeYear :: "int \<Rightarrow> int" where
  "daysBeforeYear yoe = 365 * yoe + yoe div 4 - yoe div 100"

text \<open>The day number (days since 1970-01-01) of the civil date \<open>y-m-d\<close>.\<close>

definition daysFromCivil :: "int \<Rightarrow> int \<Rightarrow> int \<Rightarrow> int" where
  "daysFromCivil y m d =
     (let y' = (if m \<le> 2 then y - 1 else y);
          era = y' div 400;
          yoe = y' mod 400;
          mp = (if m > 2 then m - 3 else m + 9)
      in era * 146097 + daysBeforeYear yoe + daysBeforeMonth mp + (d - 1) - 719468)"

text \<open>
  The civil date (year, month, day of month) of a day number: the era of 400
  years and the day in it, then the year of the era and the day in that
  year, then the month. The year of the era is the guess \<open>doe div 365\<close>,
  which is right or one too large.
\<close>

definition yearOfEra :: "int \<Rightarrow> int" where
  "yearOfEra doe =
     (if daysBeforeYear (min 399 (doe div 365)) \<le> doe
      then min 399 (doe div 365) else min 399 (doe div 365) - 1)"

definition monthIndex :: "int \<Rightarrow> int" where
  "monthIndex doy = (5 * doy + 2) div 153"

definition civilOfMonth :: "int \<Rightarrow> int \<Rightarrow> int \<Rightarrow> int \<times> int \<times> int" where
  "civilOfMonth y mp doy =
     (if mp < 10 then (y, mp + 3, doy - daysBeforeMonth mp + 1)
      else (y + 1, mp - 9, doy - daysBeforeMonth mp + 1))"

definition civilOfYear :: "int \<Rightarrow> int \<Rightarrow> int \<Rightarrow> int \<times> int \<times> int" where
  "civilOfYear era doe yoe =
     civilOfMonth (yoe + era * 400) (monthIndex (doe - daysBeforeYear yoe))
       (doe - daysBeforeYear yoe)"

definition civilFromDays :: "int \<Rightarrow> int \<times> int \<times> int" where
  "civilFromDays z =
     civilOfYear ((z + 719468) div 146097) ((z + 719468) mod 146097)
       (yearOfEra ((z + 719468) mod 146097))"

subsection \<open>Decimal numerals\<close>

definition digitChar :: "nat \<Rightarrow> char" where
  "digitChar n = ''0123456789'' ! n"

fun showNat :: "nat \<Rightarrow> string" where
  "showNat n = (if n < 10 then [digitChar n] else showNat (n div 10) @ [digitChar (n mod 10)])"

declare showNat.simps [simp del]

text \<open>\<^verbatim>\<open>addLeadingZeros\<close> of date-fns, on a number that is not negative.\<close>

definition addLeadingZeros :: "nat \<Rightarrow> nat \<Rightarrow> string" where
  "addLeadingZeros n targetLength =
     replicate (targetLength - length (showNat n)) (CHR ''0'') @ showNat n"

definition isDigit :: "char \<Rightarrow> bool" where
  "isDigit c = (48 \<le> (of_char c :: nat) \<and> (of_char c :: nat) \<le> 57)"

definition digitVal :: "char \<Rightarrow> nat" where
  "digitVal c = of_char c - 48"

text \<open>The value of a string of decimal digits; \<open>None\<close> when a character is no digit.\<close>

definition readNat :: "string \<Rightarrow> nat option" where
  "readNat s =
     (if s \<noteq> [] \<and> list_all isDigit s
      then Some (foldl (\<lambda>acc c. 10 * acc + digitVal c) 0 s) else None)"

subsection \<open>The JavaScript \<^verbatim>\<open>Date\<close> and the date-fns functions used\<close>

text \<open>
  A \<^verbatim>\<open>Date\<close> object holds a time value or is an Invalid Date (\<open>None\<close>).
\<close>

type_synonym Date = "int option"

text \<open>
  A time value lies within 8,640,000,000,000,000 milliseconds of the epoch
  (100,000,000 days either way, up to the year 275760). \<^verbatim>\<open>TimeClip\<close> of
  ECMAScript turns any number outside this range into \<^verbatim>\<open>NaN\<close>; the \<^verbatim>\<open>Date\<close>
  constructor and \<^verbatim>\<open>setDate\<close> apply it to the time value they compute.
\<close>

definition maxTime :: int where
  "maxTime = 8640000000000000"

definition timeClip :: "int \<Rightarrow> Date" where
  "timeClip t = (if - maxTime \<le> t \<and> t \<le> maxTime then Some t else None)"

text \<open>
  The date-only form \<^verbatim>\<open>YYYY-MM-DD\<close> of the ECMAScript date-time string
  format, the form the application writes into \<^verbatim>\<open>nextDueDate\<close>: a string
  of this form that names a day of the calendar denotes midnight UTC of that
  day.
\<close>

definition isoDate :: "string \<Rightarrow> Date" where
  "isoDate s =
     (if length s = 10 \<and> s ! 4 = CHR ''-'' \<and> s ! 7 = CHR ''-'' then
        (case (readNat (take 4 s), readNat (take 2 (drop 5 s)), readNat (drop 8 s)) of
           (Some y, Some m, Some d) \<Rightarrow>
             (if 1 \<le> m \<and> m \<le> 12 \<and> 1 \<le> d \<and> int d \<le> daysInMonth (int y) (int m)
              then Some (daysFromCivil (int y) (int m) (int d) * msPerDay) else None)
         | _ \<Rightarrow> None)
      else None)"

text \<open>
  The environment of one call: the offset of local time from UTC in minutes
  (positive east of Greenwich), the time value the clock shows during the
  call (\<^verbatim>\<open>new Date()\<close> and \<^verbatim>\<open>Date.now()\<close>), the ids that \<^verbatim>\<open>uuidv4()\<close>
  hands out, in order, and what the engine makes of a date string that is
  not of the form above, which ECMAScript leaves to the engine. The offset
  is one number: a change to or from daylight-saving time among the days a
  run visits is not modelled. The clock is one number too: the call is taken
  to read the same instant each time, as it does unless midnight or a
  millisecond passes while the call runs.
\<close>

record env =
  tzOffset :: int
  now :: int
  uuidv4 :: "nat \<Rightarrow> string"
  parseOther :: "string \<Rightarrow> Date"

text \<open>\<^verbatim>\<open>new Date(s)\<close> on a string.\<close>

definition newDate :: "env \<Rightarrow> string \<Rightarrow> Date" where
  "newDate e s =
     (case (case isoDate s of Some t \<Rightarrow> Some t | None \<Rightarrow> parseOther e s) of
        None \<Rightarrow> None
      | Some t \<Rightarrow> timeClip t)"

text \<open>The day number of the local calendar date of a time value.\<close>

definition localDay :: "env \<Rightarrow> int \<Rightarrow> int" where
  "localDay e t = (t + tzOffset e * 60000) div msPerDay"

text \<open>
  \<^verbatim>\<open>isBefore\<close> compares time values; \<^verbatim>\<open>isSameDay\<close> compares the starts of
  the local days, and \<^verbatim>\<open>isToday(d)\<close> is \<^verbatim>\<open>isSameDay(d, Date.now())\<close>. Every
  comparison with an Invalid Date is false.
\<close>

definition isBefore :: "Date \<Rightarrow> Date \<Rightarrow> bool" where
  "isBefore a b = (case (a, b) of (Some x, Some y) \<Rightarrow> x < y | _ \<Rightarrow> False)"

definition isSameDay :: "env \<Rightarrow> Date \<Rightarrow> Date \<Rightarrow> bool" where
  "isSameDay e a b =
     (case (a, b) of (Some x, Some y) \<Rightarrow> localDay e x = localDay e y | _ \<Rightarrow> False)"

definition isToday :: "env \<Rightarrow> Date \<Rightarrow> bool" where
  "isToday e a = isSameDay e a (Some (now e))"

text \<open>
  \<^verbatim>\<open>addDays\<close> sets the local day of the month (\<^verbatim>\<open>setDate\<close>); with a constant
  offset that adds whole days to the time value. The result is an Invalid
  Date when the new time value is out of range. An Invalid Date stays one.
\<close>

definition addDays :: "Date \<Rightarrow> int \<Rightarrow> Date" where
  "addDays a n = (case a of None \<Rightarrow> None | Some t \<Rightarrow> timeClip (t + n * msPerDay))"

text \<open>
  \<^verbatim>\<open>format(d, 'yyyy-MM-dd')\<close>: the local calendar date. The token \<^verbatim>\<open>yyyy\<close>
  prints the year of the era (year 0 prints as 0001). On an Invalid Date
  date-fns throws a RangeError: the result \<open>None\<close>.
\<close>

definition formatDay :: "int \<Rightarrow> string" where
  "formatDay z =
     (case civilFromDays z of (y, m, d) \<Rightarrow>
        addLeadingZeros (nat (if y > 0 then y else 1 - y)) 4 @ ''-'' @
        addLeadingZeros (nat m) 2 @ ''-'' @ addLeadingZeros (nat d) 2)"

definition format_yyyy_MM_dd :: "env \<Rightarrow> Date \<Rightarrow> string option" where
  "format_yyyy_MM_dd e a = map_option (\<lambda>t. formatDay (localDay e t)) a"

subsection \<open>The data model\<close>

text \<open>
  \<^verbatim>\<open>Expense\<close> and the template of a rule,
  \<^verbatim>\<open>Omit<Expense, 'id' | 'date' | 'createdAt'>\<close>. The template is the base
  record and an expense extends it, which is what the object spread
  \<^verbatim>\<open>{...rule.expenseTemplate, id, date, createdAt, type}\<close> builds. The unions of
  string literals (\<^verbatim>\<open>Category\<close>, \<^verbatim>\<open>PaymentMode\<close>, \<^verbatim>\<open>TransactionType\<close>,
  \<^verbatim>\<open>Frequency\<close>) are strings, as they are at run time: the rules are read
  back from local storage with \<^verbatim>\<open>JSON.parse\<close>. A field that may be absent is
  an option; the code tests \<^verbatim>\<open>type\<close> for absence where it uses it. The
  fields \<^verbatim>\<open>id\<close> and \<^verbatim>\<open>note\<close> are written \<open>id'\<close> and \<open>note'\<close>.
\<close>

record ExpenseTemplate =
  amount :: real
  category :: string
  paymentMode :: string
  note' :: "string option"
  type :: "string option"

record Expense = ExpenseTemplate +
  id' :: string
  date :: string
  createdAt :: int

record RecurringRule =
  id' :: string
  frequency :: string
  nextDueDate :: string
  expenseTemplate :: ExpenseTemplate
  active :: bool
  lastRun :: "string option"

text \<open>The values of the type \<^verbatim>\<open>Frequency\<close>.\<close>

definition isFrequency :: "string \<Rightarrow> bool" where
  "isFrequency f = (f = ''daily'' \<or> f = ''weekly'' \<or> f = ''monthly'' \<or> f = ''yearly'')"

text \<open>\<^verbatim>\<open>x || 'expense'\<close>: an absent or empty string is falsy.\<close>

definition orExpense :: "string option \<Rightarrow> string" where
  "orExpense x = (case x of None \<Rightarrow> ''expense'' | Some s \<Rightarrow> if s = [] then ''expense'' else s)"

subsection \<open>The loop of one rule\<close>

text \<open>The entry pushed onto \<^verbatim>\<open>ruleUpdates\<close> (lines 97 to 103).\<close>

definition newExpense :: "env \<Rightarrow> RecurringRule \<Rightarrow> string \<Rightarrow> nat \<Rightarrow> Expense" where
  "newExpense e rule dt k =
     ExpenseTemplate.extend
       ((expenseTemplate rule)\<lparr>type := Some (orExpense (type (expenseTemplate rule)))\<rparr>)
       \<lparr>Expense.id' = uuidv4 e k, date = dt, createdAt = now e\<rparr>"

text \<open>The four tests that move \<^verbatim>\<open>nextDate\<close> on (lines 106 to 109).\<close>

definition calculateNextDate :: "string \<Rightarrow> Date \<Rightarrow> Date" where
  "calculateNextDate f nextDate =
     (let d1 = (if f = ''daily'' then addDays nextDate 1 else nextDate);
          d2 = (if f = ''weekly'' then addDays d1 7 else d1);
          d3 = (if f = ''monthly'' then addDays d2 30 else d2);
          d4 = (if f = ''yearly'' then addDays d3 365 else d3)
      in d4)"

text \<open>
  The \<^verbatim>\<open>while\<close> loop (lines 94 to 110). Its state is \<^verbatim>\<open>nextDate\<close>,
  \<^verbatim>\<open>ruleUpdates\<close> and the number \<open>k\<close> of ids drawn so far. The result \<open>None\<close>
  stands for a call that returns nothing: the loop runs forever, or
  \<^verbatim>\<open>format\<close> throws.
\<close>

partial_function (option) whileDue ::
  "env \<Rightarrow> RecurringRule \<Rightarrow> Date \<Rightarrow> Expense list \<Rightarrow> nat \<Rightarrow> (Date \<times> Expense list \<times> nat) option"
where
  "whileDue e rule nextDate ruleUpdates k =
     (if isBefore nextDate (Some (now e)) \<or> isToday e nextDate then
        (if \<not> active rule then Some (nextDate, ruleUpdates, k)
         else (case format_yyyy_MM_dd e nextDate of
                 None \<Rightarrow> None
               | Some dt \<Rightarrow>
                   whileDue e rule (calculateNextDate (frequency rule) nextDate)
                     (ruleUpdates @ [newExpense e rule dt k]) (Suc k)))
      else Some (nextDate, ruleUpdates, k))"

declare whileDue.simps [code]

subsection \<open>The map over the rules\<close>

text \<open>
  The callback of \<^verbatim>\<open>updatedRules.map\<close> (lines 89 to 118). It assigns to the
  variables \<^verbatim>\<open>newExpenses\<close> and \<^verbatim>\<open>hasUpdates\<close> of the enclosing function;
  they are passed through, with the id counter.
\<close>

type_synonym acc = "Expense list \<times> bool \<times> nat"

definition processRule :: "env \<Rightarrow> acc \<Rightarrow> RecurringRule \<Rightarrow> (RecurringRule \<times> acc) option" where
  "processRule e st rule =
     (case st of (newExpenses, hasUpdates, k) \<Rightarrow>
        (case whileDue e rule (newDate e (nextDueDate rule)) [] k of
           None \<Rightarrow> None
         | Some (nextDate, ruleUpdates, k') \<Rightarrow>
             (if length ruleUpdates > 0 then
                (case (format_yyyy_MM_dd e nextDate, format_yyyy_MM_dd e (Some (now e))) of
                   (Some nd, Some td) \<Rightarrow>
                     Some (rule\<lparr>nextDueDate := nd, lastRun := Some td\<rparr>,
                           (newExpenses @ ruleUpdates, True, k'))
                 | _ \<Rightarrow> None)
              else Some (rule, (newExpenses, hasUpdates, k')))))"

fun mapRules :: "env \<Rightarrow> RecurringRule list \<Rightarrow> acc \<Rightarrow> (RecurringRule list \<times> acc) option" where
  "mapRules e [] st = Some ([], st)"
| "mapRules e (rule # rules) st =
     (case processRule e st rule of
        None \<Rightarrow> None
      | Some (rule', st') \<Rightarrow>
          (case mapRules e rules st' of
             None \<Rightarrow> None
           | Some (rules', st'') \<Rightarrow> Some (rule' # rules', st'')))"

subsection \<open>Storage, the toast and the whole function\<close>

text \<open>
  The part of the application state the function touches: the two keys of
  local storage (\<^verbatim>\<open>spendwizer_recurring\<close> and \<^verbatim>\<open>spendwizer_expenses\<close>) and the
  toast of the component.
\<close>

record app =
  recurringKey :: "RecurringRule list"
  expenseKey :: "Expense list"
  toast :: "string option"

definition getRecurringRules :: "app \<Rightarrow> RecurringRule list" where
  "getRecurringRules s = recurringKey s"

definition saveRecurringRules :: "RecurringRule list \<Rightarrow> app \<Rightarrow> app" where
  "saveRecurringRules rules s = s\<lparr>recurringKey := rules\<rparr>"

definition showToastMessage :: "string \<Rightarrow> app \<Rightarrow> app" where
  "showToastMessage message s = s\<lparr>toast := Some message\<rparr>"

text \<open>
  \<^verbatim>\<open>processRecurringExpenses\<close>: the expenses it returns and the state it leaves.
\<close>

definition processRecurringExpenses ::
  "env \<Rightarrow> app \<Rightarrow> Expense list \<Rightarrow> (Expense list \<times> app) option" where
  "processRecurringExpenses e s currentExpenses =
     (case mapRules e (getRecurringRules s) ([], False, 0) of
        None \<Rightarrow> None
      | Some (updatedRules, (newExpenses, hasUpdates, k)) \<Rightarrow>
          (if hasUpdates then
             Some (newExpenses @ currentExpenses,
                   showToastMessage (showNat (length newExpenses) @ '' recurring expenses added'')
                     (saveRecurringRules updatedRules s))
           else Some (currentExpenses, s)))"

text \<open>
  What the specification calls \<^verbatim>\<open>materialize(rules, referenceTime)\<close>: the
  computation between reading the rules and writing them back, with the
  reference time \<open>now e\<close>.
\<close>

record result =
  newTransactions :: "Expense list"
  updatedRules :: "RecurringRule list"
  generatedCount :: nat

definition materialize :: "env \<Rightarrow> RecurringRule list \<Rightarrow> result option" where
  "materialize e rules =
     (case mapRules e rules ([], False, 0) of
        None \<Rightarrow> None
      | Some (rules', (newExpenses, hasUpdates, k)) \<Rightarrow>
          Some \<lparr>newTransactions = newExpenses, updatedRules = rules',
                generatedCount = length newExpenses\<rparr>)"

subsection \<open>Notions used in the statements\<close>

text \<open>The condition of the \<^verbatim>\<open>while\<close> loop.\<close>

definition due :: "env \<Rightarrow> Date \<Rightarrow> bool" where
  "due e d = (isBefore d (Some (now e)) \<or> isToday e d)"

text \<open>The number of days the four tests add for a frequency tag; none for any other tag.\<close>

definition stepDays :: "string \<Rightarrow> int" where
  "stepDays f =
     (if f = ''daily'' then 1 else if f = ''weekly'' then 7
      else if f = ''monthly'' then 30 else if f = ''yearly'' then 365 else 0)"

text \<open>
  The number of passes of the loop that starts at time value \<open>c\<close> with
  frequency \<open>f\<close>, and the entries these passes push, the first id being the
  \<open>k\<close>-th.
\<close>

definition dueCount :: "env \<Rightarrow> string \<Rightarrow> int \<Rightarrow> nat" where
  "dueCount e f c =
     (if localDay e c \<le> localDay e (now e)
      then nat ((localDay e (now e) - localDay e c) div stepDays f + 1) else 0)"

definition occurrences :: "env \<Rightarrow> RecurringRule \<Rightarrow> int \<Rightarrow> nat \<Rightarrow> nat \<Rightarrow> Expense list" where
  "occurrences e rule c k n =
     map (\<lambda>i. newExpense e rule
                 (formatDay (localDay e c + int i * stepDays (frequency rule))) (k + i))
       [0..<n]"

text \<open>
  The result of a run with a rule put back, unchanged, at position \<open>n\<close> of
  the updated rules.
\<close>

definition withRuleAt :: "nat \<Rightarrow> RecurringRule \<Rightarrow> result \<Rightarrow> result" where
  "withRuleAt n rule res =
     res\<lparr>updatedRules := take n (updatedRules res) @ rule # drop n (updatedRules res)\<rparr>"

text \<open>
  Inputs of the examples: the template and the rule of the specification's
  scenario, with the frequency and the due date left open, and an
  environment with a given offset and clock, whose engine reads no date
  string but those of the ISO form.
\<close>

definition foodTemplate :: ExpenseTemplate where
  "foodTemplate =
     \<lparr>amount = 10, category = ''Food'', paymentMode = ''Cash'', note' = None,
      type = Some ''expense''\<rparr>"

definition foodRule :: "string \<Rightarrow> string \<Rightarrow> RecurringRule" where
  "foodRule f d =
     \<lparr>RecurringRule.id' = ''rule-1'', frequency = f, nextDueDate = d,
      expenseTemplate = foodTemplate, active = True, lastRun = None\<rparr>"

text \<open>A second rule, with another template.\<close>

definition billsTemplate :: ExpenseTemplate where
  "billsTemplate =
     \<lparr>amount = 45, category = ''Bills'', paymentMode = ''Bank'', note' = Some ''rent'',
      type = Some ''expense''\<rparr>"

definition billsRule :: "string \<Rightarrow> string \<Rightarrow> RecurringRule" where
  "billsRule f d =
     \<lparr>RecurringRule.id' = ''rule-2'', frequency = f, nextDueDate = d,
      expenseTemplate = billsTemplate, active = True, lastRun = None\<rparr>"

definition envAt :: "int \<Rightarrow> int \<Rightarrow> env" where
  "envAt tz t =
     \<lparr>tzOffset = tz, now = t, uuidv4 = (\<lambda>k. ''id-'' @ showNat k),
      parseOther = (\<lambda>s. None)\<rparr>"

text \<open>The time value of \<open>h\<close> o'clock UTC on the civil date \<open>y-m-d\<close>.\<close>

definition utc :: "int \<Rightarrow> int \<Rightarrow> int \<Rightarrow> int \<Rightarrow> int" where
  "utc y m d h = daysFromCivil y m d * msPerDay + h * 3600000"

section \<open>Properties\<close>

subsection \<open>Days and the loop condition\<close>

lemma msPerDay_pos: "0 < msPerDay"
  by (simp add: msPerDay_def)

lemma localDay_mono: "a \<le> b \<Longrightarrow> localDay e a \<le> localDay e b"
  unfolding localDay_def using msPerDay_pos by (intro zdiv_mono1) auto

lemma localDay_addDays: "localDay e (c + n * msPerDay) = localDay e c + n"
proof -
  have "localDay e (c + n * msPerDay) = ((c + tzOffset e * 60000) + n * msPerDay) div msPerDay"
    by (simp add: localDay_def algebra_simps)
  also have "\<dots> = (c + tzOffset e * 60000) div msPerDay + n"
    using msPerDay_pos by simp
  finally show ?thesis by (simp add: localDay_def)
qed

text \<open>The range of time values.\<close>

lemma timeClip_Some: "- maxTime \<le> t \<Longrightarrow> t \<le> maxTime \<Longrightarrow> timeClip t = Some t"
  by (simp add: timeClip_def)

lemma timeClip_range: "timeClip t = Some c \<Longrightarrow> - maxTime \<le> c \<and> c \<le> maxTime"
  by (auto simp: timeClip_def split: if_splits)

lemma newDate_range: "newDate e s = Some c \<Longrightarrow> - maxTime \<le> c \<and> c \<le> maxTime"
  by (auto simp: newDate_def dest: timeClip_range split: option.splits)

text \<open>A time value on a local day that is not after today is less than a day after now.\<close>

lemma due_before:
  assumes "localDay e c \<le> localDay e (now e)"
  shows "c < now e + msPerDay"
proof (rule ccontr)
  assume "\<not> c < now e + msPerDay"
  then have "now e + 1 * msPerDay \<le> c" by simp
  then have "localDay e (now e + 1 * msPerDay) \<le> localDay e c" by (rule localDay_mono)
  then have "localDay e (now e) + 1 \<le> localDay e c" by (simp only: localDay_addDays)
  with assms show False by simp
qed

text \<open>
  A clock that shows a day up to 9999-12-31, in any time zone, is more than
  366 days before the end of the range.
\<close>

lemma clock_of_day:
  assumes "- 1440 \<le> tzOffset e" "localDay e (now e) \<le> 2932896"
  shows "now e + 366 * msPerDay \<le> maxTime"
proof -
  let ?a = "now e + tzOffset e * 60000"
  have "?a = 86400000 * (?a div 86400000) + ?a mod 86400000" by simp
  moreover have "?a mod 86400000 < 86400000" by simp
  moreover have "?a div 86400000 \<le> 2932896" using assms(2) by (simp add: localDay_def msPerDay_def)
  ultimately have "?a < 86400000 * 2932896 + 86400000" by linarith
  with assms(1) show ?thesis by (simp add: msPerDay_def maxTime_def)
qed

text \<open>East of Greenwich (and on it) midnight UTC of a day lies on that day.\<close>

lemma localDay_midnight_east:
  assumes "0 \<le> tzOffset e" "tzOffset e < 1440"
  shows "localDay e (d * msPerDay) = d"
proof -
  have "localDay e (d * msPerDay) = localDay e 0 + d"
    using localDay_addDays[of e 0 d] by simp
  moreover have "localDay e 0 = 0"
    using assms by (simp add: localDay_def msPerDay_def div_pos_pos_trivial)
  ultimately show ?thesis by simp
qed

text \<open>West of Greenwich it lies on the day before.\<close>

lemma localDay_midnight_west:
  assumes "tzOffset e < 0" "- 1440 \<le> tzOffset e"
  shows "localDay e (d * msPerDay) = d - 1"
proof -
  have "localDay e (d * msPerDay) = localDay e 0 + d"
    using localDay_addDays[of e 0 d] by simp
  moreover have "localDay e 0 = - 1"
  proof -
    have "(tzOffset e * 60000) div 86400000 = - 1"
      by (rule int_div_pos_eq[where r = "tzOffset e * 60000 + 86400000"]) (use assms in auto)
    then show ?thesis by (simp add: localDay_def msPerDay_def)
  qed
  ultimately show ?thesis by simp
qed

lemma due_None: "\<not> due e None"
  by (simp add: due_def isBefore_def isToday_def isSameDay_def)

text \<open>
  The loop condition compares local calendar days: \<^verbatim>\<open>isBefore\<close> compares time
  values, \<^verbatim>\<open>isToday\<close> local days, and together they hold exactly when the
  local day of \<^verbatim>\<open>nextDate\<close> is not after today's.
\<close>

lemma due_Some: "due e (Some c) \<longleftrightarrow> localDay e c \<le> localDay e (now e)"
proof
  assume "due e (Some c)"
  then show "localDay e c \<le> localDay e (now e)"
    using localDay_mono[of c "now e" e]
    by (auto simp: due_def isBefore_def isToday_def isSameDay_def)
next
  assume h: "localDay e c \<le> localDay e (now e)"
  show "due e (Some c)"
  proof (cases "localDay e c = localDay e (now e)")
    case True
    then show ?thesis by (simp add: due_def isToday_def isSameDay_def)
  next
    case False
    with h have "localDay e c < localDay e (now e)" by simp
    then have "c < now e"
      using localDay_mono[of "now e" c e] by (cases "c < now e") auto
    then show ?thesis by (simp add: due_def isBefore_def)
  qed
qed

subsection \<open>One pass of the loop\<close>

lemma whileDue_unfold:
  "whileDue e rule nextDate ruleUpdates k =
     (if due e nextDate then
        (if \<not> active rule then Some (nextDate, ruleUpdates, k)
         else (case format_yyyy_MM_dd e nextDate of
                 None \<Rightarrow> None
               | Some dt \<Rightarrow>
                   whileDue e rule (calculateNextDate (frequency rule) nextDate)
                     (ruleUpdates @ [newExpense e rule dt k]) (Suc k)))
      else Some (nextDate, ruleUpdates, k))"
  unfolding due_def by (rule whileDue.simps)

lemma whileDue_invalid: "whileDue e rule None us k = Some (None, us, k)"
  by (subst whileDue_unfold) (simp add: due_None)

lemma whileDue_inactive: "\<not> active rule \<Longrightarrow> whileDue e rule d us k = Some (d, us, k)"
  by (subst whileDue_unfold) simp

lemma whileDue_not_due: "\<not> due e d \<Longrightarrow> whileDue e rule d us k = Some (d, us, k)"
  by (subst whileDue_unfold) simp

lemma whileDue_due:
  "localDay e c \<le> localDay e (now e) \<Longrightarrow> active rule \<Longrightarrow>
   whileDue e rule (Some c) us k =
     whileDue e rule (calculateNextDate (frequency rule) (Some c))
       (us @ [newExpense e rule (formatDay (localDay e c)) k]) (Suc k)"
  by (subst whileDue_unfold) (simp add: due_Some format_yyyy_MM_dd_def)

text \<open>
  Exactly one of the four tests holds for a tag of the type \<^verbatim>\<open>Frequency\<close>,
  and none for any other tag.
\<close>

lemma calculateNextDate_Some:
  "calculateNextDate f (Some c) =
     (if isFrequency f then timeClip (c + stepDays f * msPerDay) else Some c)"
  by (auto simp: calculateNextDate_def stepDays_def addDays_def Let_def isFrequency_def)

lemma stepDays_pos: "isFrequency f \<Longrightarrow> 0 < stepDays f"
  by (auto simp: isFrequency_def stepDays_def)

lemma stepDays_unknown: "\<not> isFrequency f \<Longrightarrow> stepDays f = 0"
  by (auto simp: isFrequency_def stepDays_def)

lemma stepDays_le_365: "stepDays f \<le> 365"
  by (simp add: stepDays_def)

subsection \<open>The loop in closed form\<close>

lemma occurrences_0: "occurrences e rule c k 0 = []"
  by (simp add: occurrences_def)

lemma occurrences_Nil_iff: "occurrences e rule c k n = [] \<longleftrightarrow> n = 0"
  by (simp add: occurrences_def)

lemma occurrences_length: "length (occurrences e rule c k n) = n"
  by (simp add: occurrences_def)

lemma occurrences_Suc_front:
  "occurrences e rule c k (Suc n) =
     newExpense e rule (formatDay (localDay e c)) k #
     occurrences e rule (c + stepDays (frequency rule) * msPerDay) (Suc k) n"
proof -
  have "[0..<Suc n] = 0 # map Suc [0..<n]"
    by (simp add: upt_conv_Cons map_Suc_upt del: upt_Suc)
  moreover have "\<And>i. localDay e (c + stepDays (frequency rule) * msPerDay)
        + int i * stepDays (frequency rule)
      = localDay e c + int (Suc i) * stepDays (frequency rule)"
    by (simp only: localDay_addDays) (simp add: algebra_simps)
  ultimately show ?thesis
    by (simp add: occurrences_def comp_def del: upt_Suc of_nat_Suc)
qed

lemma dueCount_pos:
  "localDay e c \<le> localDay e (now e) \<Longrightarrow> isFrequency f \<Longrightarrow> 0 < dueCount e f c"
  using stepDays_pos[of f] by (simp add: dueCount_def pos_imp_zdiv_nonneg_iff)

lemma dueCount_0: "localDay e (now e) < localDay e c \<Longrightarrow> dueCount e f c = 0"
  by (simp add: dueCount_def)

text \<open>
  For a rule that is active and whose frequency is one of the four tags the
  loop returns, when the clock is more than 366 days before the end of the
  range of time values: it makes \<open>dueCount\<close> passes, one entry each.
\<close>

lemma whileDue_closed:
  assumes "isFrequency (frequency rule)" "active rule" "now e + 366 * msPerDay \<le> maxTime"
    and "- maxTime \<le> c"
  shows "whileDue e rule (Some c) us k =
           Some (Some (c + int (dueCount e (frequency rule) c) * stepDays (frequency rule) * msPerDay),
                 us @ occurrences e rule c k (dueCount e (frequency rule) c),
                 k + dueCount e (frequency rule) c)"
  using assms(4)
proof (induction "nat (localDay e (now e) - localDay e c + 1)" arbitrary: c us k rule: less_induct)
  case less
  let ?s = "stepDays (frequency rule)"
  have sp: "0 < ?s" using assms(1) by (rule stepDays_pos)
  show ?case
  proof (cases "localDay e c \<le> localDay e (now e)")
    case False
    then show ?thesis
      by (simp add: whileDue_not_due due_Some dueCount_def occurrences_0)
  next
    case True
    let ?c' = "c + ?s * msPerDay"
    have d': "localDay e ?c' = localDay e c + ?s" by (rule localDay_addDays)
    have lt: "nat (localDay e (now e) - localDay e ?c' + 1)
        < nat (localDay e (now e) - localDay e c + 1)"
      using True sp d' by simp
    have cnt: "dueCount e (frequency rule) c = Suc (dueCount e (frequency rule) ?c')"
    proof (cases "localDay e ?c' \<le> localDay e (now e)")
      case True
      have "localDay e (now e) - localDay e c = (localDay e (now e) - localDay e ?c') + ?s"
        using d' by simp
      then have "(localDay e (now e) - localDay e c) div ?s
          = ((localDay e (now e) - localDay e ?c') + ?s) div ?s"
        by (simp only:)
      also have "\<dots> = (localDay e (now e) - localDay e ?c') div ?s + 1"
        using sp by (subst div_add_self2) auto
      finally have "(localDay e (now e) - localDay e c) div ?s
          = (localDay e (now e) - localDay e ?c') div ?s + 1" .
      then show ?thesis using True \<open>localDay e c \<le> localDay e (now e)\<close> sp
        by (simp add: dueCount_def pos_imp_zdiv_nonneg_iff nat_add_distrib)
    next
      case False
      then have "(localDay e (now e) - localDay e c) div ?s = 0"
        using True d' sp by (simp add: div_pos_pos_trivial)
      then show ?thesis using False True by (simp add: dueCount_def)
    qed
    have "?s * msPerDay \<le> 365 * msPerDay"
      using stepDays_le_365[of "frequency rule"] msPerDay_pos by (intro mult_right_mono) simp_all
    moreover have "0 \<le> ?s * msPerDay" using sp msPerDay_pos by simp
    ultimately have lo: "- maxTime \<le> ?c'" and hi: "?c' \<le> maxTime"
      using less.prems due_before[OF True] assms(3) by linarith+
    have "whileDue e rule (Some c) us k =
            whileDue e rule (Some ?c') (us @ [newExpense e rule (formatDay (localDay e c)) k]) (Suc k)"
      using True assms(1,2) by (simp add: whileDue_due calculateNextDate_Some timeClip_Some[OF lo hi])
    also have "\<dots> = Some (Some (?c' + int (dueCount e (frequency rule) ?c') * ?s * msPerDay),
                 (us @ [newExpense e rule (formatDay (localDay e c)) k]) @
                   occurrences e rule ?c' (Suc k) (dueCount e (frequency rule) ?c'),
                 Suc k + dueCount e (frequency rule) ?c')"
      by (rule less.hyps[OF lt lo])
    finally show ?thesis
      by (simp add: cnt occurrences_Suc_front algebra_simps)
  qed
qed

text \<open>
  With any other tag \<^verbatim>\<open>nextDate\<close> never moves: an active rule that is due
  keeps the loop running for ever.
\<close>

lemma whileDue_stuck_aux:
  assumes "whileDue e rule d us k = Some y"
  shows "\<not> (active rule \<and> stepDays (frequency rule) = 0 \<and> due e d)"
proof (rule whileDue.raw_induct[where P = "\<lambda>e rule d us k y.
         \<not> (active rule \<and> stepDays (frequency rule) = 0 \<and> due e d)", OF _ assms])
  fix whileDue' e rule d us k y
  assume IH: "\<And>e rule d us k y. whileDue' e rule d us k = Some y \<Longrightarrow>
                \<not> (active rule \<and> stepDays (frequency rule) = 0 \<and> due e d)"
    and body: "(if isBefore d (Some (now e)) \<or> isToday e d
         then if \<not> active rule then Some (d, us, k)
              else case format_yyyy_MM_dd e d of None \<Rightarrow> None
                   | Some dt \<Rightarrow> whileDue' e rule (calculateNextDate (frequency rule) d)
                        (us @ [newExpense e rule dt k]) (Suc k)
         else Some (d, us, k)) = Some y"
  show "\<not> (active rule \<and> stepDays (frequency rule) = 0 \<and> due e d)"
  proof
    assume a: "active rule \<and> stepDays (frequency rule) = 0 \<and> due e d"
    then obtain c where d: "d = Some c" using due_None by (cases d) auto
    have cond: "isBefore (Some c) (Some (now e)) \<or> isToday e (Some c)"
      using a d by (simp add: due_def)
    have nxt: "calculateNextDate (frequency rule) (Some c) = Some c"
      using a stepDays_pos[of "frequency rule"] by (auto simp: calculateNextDate_Some)
    have "whileDue' e rule (Some c) (us @ [newExpense e rule (formatDay (localDay e c)) k]) (Suc k)
        = Some y"
      using body a unfolding d nxt format_yyyy_MM_dd_def by (simp add: cond nxt)
    from IH[OF this] a d show False by simp
  qed
qed

lemma whileDue_stuck:
  "active rule \<Longrightarrow> \<not> isFrequency (frequency rule) \<Longrightarrow> due e d \<Longrightarrow>
   whileDue e rule d us k = None"
  using whileDue_stuck_aux[of e rule d us k] stepDays_unknown[of "frequency rule"]
  by (cases "whileDue e rule d us k") auto

text \<open>Whatever the loop returns, it has only appended entries built by newExpense.\<close>

lemma whileDue_entries_aux:
  assumes "whileDue e rule d us k = Some y"
  shows "\<exists>new. fst (snd y) = us @ new \<and> (\<forall>x\<in>set new. \<exists>dt j. x = newExpense e rule dt j)"
proof (rule whileDue.raw_induct[where P = "\<lambda>e rule d us k y.
         \<exists>new. fst (snd y) = us @ new \<and> (\<forall>x\<in>set new. \<exists>dt j. x = newExpense e rule dt j)",
         OF _ assms])
  fix whileDue' e rule d us k y
  assume IH: "\<And>e rule d us k y. whileDue' e rule d us k = Some y \<Longrightarrow>
        \<exists>new. fst (snd y) = us @ new \<and> (\<forall>x\<in>set new. \<exists>dt j. x = newExpense e rule dt j)"
    and body: "(if isBefore d (Some (now e)) \<or> isToday e d
         then if \<not> active rule then Some (d, us, k)
              else case format_yyyy_MM_dd e d of None \<Rightarrow> None
                   | Some dt \<Rightarrow> whileDue' e rule (calculateNextDate (frequency rule) d)
                        (us @ [newExpense e rule dt k]) (Suc k)
         else Some (d, us, k)) = Some y"
  show "\<exists>new. fst (snd y) = us @ new \<and> (\<forall>x\<in>set new. \<exists>dt j. x = newExpense e rule dt j)"
  proof (cases "(isBefore d (Some (now e)) \<or> isToday e d) \<and> active rule")
    case False
    with body have "y = (d, us, k)" by (auto split: if_splits)
    then show ?thesis by simp
  next
    case True
    with body obtain dt where
      rec: "whileDue' e rule (calculateNextDate (frequency rule) d)
              (us @ [newExpense e rule dt k]) (Suc k) = Some y"
      by (auto split: if_splits option.splits)
    from IH[OF rec] obtain new where
      n: "fst (snd y) = (us @ [newExpense e rule dt k]) @ new"
         "\<forall>x\<in>set new. \<exists>dt j. x = newExpense e rule dt j"
      by blast
    show ?thesis
    proof (intro exI conjI)
      show "fst (snd y) = us @ (newExpense e rule dt k # new)" using n(1) by simp
      show "\<forall>x\<in>set (newExpense e rule dt k # new). \<exists>dt j. x = newExpense e rule dt j"
        using n(2) by auto
    qed
  qed
qed

lemma whileDue_entries:
  "whileDue e rule d [] k = Some (d', us', k') \<Longrightarrow>
   \<forall>x\<in>set us'. \<exists>dt j. x = newExpense e rule dt j"
  using whileDue_entries_aux[of e rule d "[]" k "(d', us', k')"] by simp

subsection \<open>The callback on one rule\<close>

lemma processRule_skip:
  "whileDue e rule (newDate e (nextDueDate rule)) [] k = Some (d, [], k) \<Longrightarrow>
   processRule e (ne, h, k) rule = Some (rule, (ne, h, k))"
  by (simp add: processRule_def)

lemma processRule_inactive:
  "\<not> active rule \<Longrightarrow> processRule e (ne, h, k) rule = Some (rule, (ne, h, k))"
  by (rule processRule_skip) (simp add: whileDue_inactive)

lemma processRule_not_due:
  "\<not> due e (newDate e (nextDueDate rule)) \<Longrightarrow>
   processRule e (ne, h, k) rule = Some (rule, (ne, h, k))"
  by (rule processRule_skip) (simp add: whileDue_not_due)

lemma processRule_invalid:
  "newDate e (nextDueDate rule) = None \<Longrightarrow>
   processRule e (ne, h, k) rule = Some (rule, (ne, h, k))"
  by (rule processRule_not_due) (simp add: due_None)

lemma processRule_due:
  assumes "isFrequency (frequency rule)" "active rule" "newDate e (nextDueDate rule) = Some c"
    "localDay e c \<le> localDay e (now e)" "now e + 366 * msPerDay \<le> maxTime"
  shows "processRule e (ne, h, k) rule =
    Some (rule\<lparr>nextDueDate := formatDay (localDay e c
                 + int (dueCount e (frequency rule) c) * stepDays (frequency rule)),
               lastRun := Some (formatDay (localDay e (now e)))\<rparr>,
          (ne @ occurrences e rule c k (dueCount e (frequency rule) c), True,
           k + dueCount e (frequency rule) c))"
proof -
  have lo: "- maxTime \<le> c" using newDate_range[OF assms(3)] by simp
  have "0 < dueCount e (frequency rule) c" using assms(4,1) by (rule dueCount_pos)
  then show ?thesis
    using localDay_addDays[of e c "int (dueCount e (frequency rule) c) * stepDays (frequency rule)"]
    by (simp add: processRule_def whileDue_closed[OF assms(1,2,5) lo] assms(3) occurrences_Nil_iff
        format_yyyy_MM_dd_def mult.assoc)
qed

lemma processRule_stuck:
  "active rule \<Longrightarrow> \<not> isFrequency (frequency rule) \<Longrightarrow> due e (newDate e (nextDueDate rule)) \<Longrightarrow>
   processRule e st rule = None"
  by (cases st) (simp add: processRule_def whileDue_stuck)

text \<open>
  At the end of the range of time values: when a step takes \<^verbatim>\<open>nextDate\<close>
  beyond it, the loop ends on an Invalid Date and \<^verbatim>\<open>format\<close> throws on it.
\<close>

lemma processRule_end_of_range:
  assumes "isFrequency (frequency rule)" "active rule" "newDate e (nextDueDate rule) = Some c"
    "localDay e c \<le> localDay e (now e)" "maxTime < c + stepDays (frequency rule) * msPerDay"
  shows "processRule e st rule = None"
proof -
  obtain ne h k where st: "st = (ne, h, k)" by (cases st) auto
  have "calculateNextDate (frequency rule) (Some c) = None"
    using assms(1,5) by (simp add: calculateNextDate_Some timeClip_def)
  then have "whileDue e rule (Some c) [] k =
      Some (None, [newExpense e rule (formatDay (localDay e c)) k], Suc k)"
    using assms(2,4) by (simp add: whileDue_due whileDue_invalid)
  then show ?thesis
    by (simp add: st processRule_def assms(3) format_yyyy_MM_dd_def)
qed

lemma processRule_total:
  assumes "isFrequency (frequency rule)" "now e + 366 * msPerDay \<le> maxTime"
  shows "\<exists>y. processRule e st rule = Some y"
proof -
  obtain ne h k where st: "st = (ne, h, k)" by (cases st) auto
  show ?thesis
  proof (cases "active rule \<and> due e (newDate e (nextDueDate rule))")
    case False
    then show ?thesis
      using processRule_inactive[of rule e ne h k] processRule_not_due[of e rule ne h k]
      by (auto simp: st)
  next
    case True
    then obtain c where c: "newDate e (nextDueDate rule) = Some c"
      using due_None by (cases "newDate e (nextDueDate rule)") auto
    with True have "localDay e c \<le> localDay e (now e)" by (simp add: due_Some)
    moreover have "active rule" using True by simp
    ultimately show ?thesis
      unfolding st using processRule_due[OF assms(1) _ c _ assms(2), of ne h k] by blast
  qed
qed

text \<open>What a call of the callback that returns has done.\<close>

lemma processRule_result:
  assumes "processRule e (ne, h, k) rule = Some (rule', (ne', h', k'))"
  shows "\<exists>new. ne' = ne @ new \<and> (\<forall>x\<in>set new. \<exists>dt j. x = newExpense e rule dt j) \<and>
           (if new = [] then rule' = rule \<and> h' = h
            else h' \<and> (\<exists>nd td. rule' = rule\<lparr>nextDueDate := nd, lastRun := Some td\<rparr>))"
proof -
  from assms obtain d us where
    w: "whileDue e rule (newDate e (nextDueDate rule)) [] k = Some (d, us, k')"
    by (auto simp: processRule_def split: option.splits if_splits prod.splits)
  have ent: "\<forall>x\<in>set us. \<exists>dt j. x = newExpense e rule dt j"
    using whileDue_entries[OF w] .
  show ?thesis
  proof (cases "us = []")
    case True
    with assms w show ?thesis by (auto simp: processRule_def)
  next
    case False
    with assms w have "ne' = ne @ us \<and> h' \<and> (\<exists>nd td. rule' = rule\<lparr>nextDueDate := nd, lastRun := Some td\<rparr>)"
      by (auto simp: processRule_def split: option.splits)
    with ent False show ?thesis by (intro exI[of _ us]) auto
  qed
qed

subsection \<open>The map\<close>

lemma mapRules_append:
  "mapRules e (xs @ ys) st =
     (case mapRules e xs st of
        None \<Rightarrow> None
      | Some (xs', st') \<Rightarrow>
          (case mapRules e ys st' of
             None \<Rightarrow> None
           | Some (ys', st'') \<Rightarrow> Some (xs' @ ys', st'')))"
  by (induction xs arbitrary: st) (auto split: option.splits)

lemma mapRules_length:
  "mapRules e rs st = Some (rs', st') \<Longrightarrow> length rs' = length rs"
  by (induction rs arbitrary: st rs' st') (auto split: option.splits)

text \<open>A rule the callback passes over can be taken out of the list and put back.\<close>

lemma mapRules_skip:
  assumes "\<And>st. processRule e st r = Some (r, st)"
  shows "mapRules e (xs @ r # ys) st =
     (case mapRules e (xs @ ys) st of
        None \<Rightarrow> None
      | Some (us, st') \<Rightarrow> Some (take (length xs) us @ r # drop (length xs) us, st'))"
proof (induction xs arbitrary: st)
  case Nil
  show ?case by (simp add: assms split: option.splits)
next
  case (Cons x xs)
  show ?case by (simp add: Cons.IH split: option.splits)
qed

lemma mapRules_total:
  assumes "now e + 366 * msPerDay \<le> maxTime"
  shows "\<forall>r\<in>set rs. isFrequency (frequency r) \<Longrightarrow> \<exists>y. mapRules e rs st = Some y"
proof (induction rs arbitrary: st)
  case Nil
  show ?case by (cases st) auto
next
  case (Cons r rs)
  from Cons.prems obtain r' st' where 1: "processRule e st r = Some (r', st')"
    using processRule_total[of r e st] assms by auto
  from Cons.IH[of st'] Cons.prems obtain y where "mapRules e rs st' = Some y" by auto
  with 1 show ?case by (cases y) simp
qed

text \<open>What a run of the map that returns has done.\<close>

lemma mapRules_result:
  assumes "mapRules e rs (ne, h, k) = Some (rs', (ne', h', k'))"
  shows "list_all2 (\<lambda>r r'. r' = r\<lparr>nextDueDate := nextDueDate r', lastRun := lastRun r'\<rparr>) rs rs' \<and>
         (\<exists>new. ne' = ne @ new \<and>
            (\<forall>x\<in>set new. \<exists>rule\<in>set rs. \<exists>dt j. x = newExpense e rule dt j) \<and>
            (h' \<longleftrightarrow> h \<or> new \<noteq> []))"
  using assms
proof (induction rs arbitrary: ne h k rs' ne' h' k')
  case Nil
  then show ?case by simp
next
  case (Cons r rs)
  from Cons.prems obtain r1 ne1 h1 k1 rs1 where
    p: "processRule e (ne, h, k) r = Some (r1, (ne1, h1, k1))" and
    m: "mapRules e rs (ne1, h1, k1) = Some (rs1, (ne', h', k'))" and
    r: "rs' = r1 # rs1"
    by (auto split: option.splits)
  from processRule_result[OF p] obtain new1 where
    n1: "ne1 = ne @ new1" "\<forall>x\<in>set new1. \<exists>dt j. x = newExpense e r dt j"
        "if new1 = [] then r1 = r \<and> h1 = h
         else h1 \<and> (\<exists>nd td. r1 = r\<lparr>nextDueDate := nd, lastRun := Some td\<rparr>)"
    by blast
  from Cons.IH[OF m] obtain new2 where
    l: "list_all2 (\<lambda>r r'. r' = r\<lparr>nextDueDate := nextDueDate r', lastRun := lastRun r'\<rparr>) rs rs1" and
    n2: "ne' = ne1 @ new2" "\<forall>x\<in>set new2. \<exists>rule\<in>set rs. \<exists>dt j. x = newExpense e rule dt j"
        "h' \<longleftrightarrow> h1 \<or> new2 \<noteq> []"
    by blast
  have r1: "r1 = r\<lparr>nextDueDate := nextDueDate r1, lastRun := lastRun r1\<rparr>"
    using n1(3) by (cases "new1 = []") auto
  have "ne' = ne @ (new1 @ new2)" using n1(1) n2(1) by simp
  moreover have "\<forall>x\<in>set (new1 @ new2). \<exists>rule\<in>set (r # rs). \<exists>dt j. x = newExpense e rule dt j"
    using n1(2) n2(2) by auto
  moreover have "h' \<longleftrightarrow> h \<or> new1 @ new2 \<noteq> []"
    using n1(3) n2(3) by (cases "new1 = []") auto
  ultimately show ?case using l r1 r by blast
qed

subsection \<open>The run as the specification sees it\<close>

lemma materialize_single:
  "materialize e [rule] =
     (case processRule e ([], False, 0) rule of
        None \<Rightarrow> None
      | Some (rule', (ne, h, k)) \<Rightarrow>
          Some \<lparr>newTransactions = ne, updatedRules = [rule'], generatedCount = length ne\<rparr>)"
  by (simp add: materialize_def split: option.splits)

lemma materialize_skip:
  assumes "\<And>st. processRule e st r = Some (r, st)"
  shows "materialize e (xs @ r # ys) = map_option (withRuleAt (length xs) r) (materialize e (xs @ ys))"
  by (simp add: materialize_def mapRules_skip[of e r, OF assms] withRuleAt_def split: option.splits)

lemma materialize_Some:
  "materialize e rules = Some res \<longleftrightarrow>
     (\<exists>h k. mapRules e rules ([], False, 0) = Some (updatedRules res, (newTransactions res, h, k)) \<and>
            generatedCount res = length (newTransactions res))"
  by (cases res) (auto simp: materialize_def split: option.splits)

lemma mapRules_snoc:
  "mapRules e (xs @ [rule]) st =
     (case mapRules e xs st of
        None \<Rightarrow> None
      | Some (xs', st') \<Rightarrow>
          (case processRule e st' rule of
             None \<Rightarrow> None
           | Some (rule', st'') \<Rightarrow> Some (xs' @ [rule'], st'')))"
  by (simp add: mapRules_append split: option.splits)

text \<open>The place of one rule in a run.\<close>

lemma materialize_split:
  assumes "materialize e (xs @ rule # ys) = Some res"
  obtains before upto ruleUpdates later h k rule' h' k' where
     "materialize e xs = Some before"
     "materialize e (xs @ [rule]) = Some upto"
     "newTransactions upto = newTransactions before @ ruleUpdates"
     "newTransactions res = newTransactions before @ ruleUpdates @ later"
     "processRule e (newTransactions before, h, k) rule =
        Some (rule', (newTransactions before @ ruleUpdates, h', k'))"
proof -
  from assms obtain h3 k3 where
    m: "mapRules e (xs @ rule # ys) ([], False, 0) = Some (updatedRules res, (newTransactions res, h3, k3))"
    by (auto simp: materialize_Some)
  then obtain xs' ne1 h1 k1 rule' ne2 h2 k2 ys' where
    a: "mapRules e xs ([], False, 0) = Some (xs', (ne1, h1, k1))" and
    p: "processRule e (ne1, h1, k1) rule = Some (rule', (ne2, h2, k2))" and
    b: "mapRules e ys (ne2, h2, k2) = Some (ys', (newTransactions res, h3, k3))"
    by (auto simp: mapRules_append split: option.splits)
  from processRule_result[OF p] obtain new where n: "ne2 = ne1 @ new" by blast
  from mapRules_result[OF b] obtain later where l: "newTransactions res = ne2 @ later" by blast
  let ?before = "\<lparr>newTransactions = ne1, updatedRules = xs', generatedCount = length ne1\<rparr>"
  let ?upto = "\<lparr>newTransactions = ne2, updatedRules = xs' @ [rule'], generatedCount = length ne2\<rparr>"
  have 1: "materialize e xs = Some ?before" using a by (simp add: materialize_def)
  have 2: "materialize e (xs @ [rule]) = Some ?upto"
    using a p by (simp add: materialize_def mapRules_snoc)
  have 3: "newTransactions ?upto = newTransactions ?before @ new" using n by simp
  have 4: "newTransactions res = newTransactions ?before @ new @ later" using n l by simp
  have 5: "processRule e (newTransactions ?before, h1, k1) rule =
        Some (rule', (newTransactions ?before @ new, h2, k2))" using p n by simp
  show thesis by (rule that[OF 1 2 3 4 5])
qed

subsection \<open>The fields of a generated expense\<close>

lemma newExpense_fields:
  "amount (newExpense e rule dt k) = amount (expenseTemplate rule)"
  "category (newExpense e rule dt k) = category (expenseTemplate rule)"
  "paymentMode (newExpense e rule dt k) = paymentMode (expenseTemplate rule)"
  "note' (newExpense e rule dt k) = note' (expenseTemplate rule)"
  "type (newExpense e rule dt k) = Some (orExpense (type (expenseTemplate rule)))"
  "Expense.id' (newExpense e rule dt k) = uuidv4 e k"
  "date (newExpense e rule dt k) = dt"
  "createdAt (newExpense e rule dt k) = now e"
  by (simp_all add: newExpense_def ExpenseTemplate.extend_def)

lemma orExpense_present: "s \<noteq> [] \<Longrightarrow> orExpense (Some s) = s"
  by (simp add: orExpense_def)

subsection \<open>Printing and reading dates: facts used by the examples\<close>

lemmas civil_defs = civilFromDays_def civilOfYear_def civilOfMonth_def monthIndex_def yearOfEra_def
  daysBeforeYear_def daysBeforeMonth_def

lemma showNat_1digit: "n < 10 \<Longrightarrow> showNat n = [digitChar n]"
  by (simp add: showNat.simps)

lemma showNat_2digit: "10 \<le> n \<Longrightarrow> n < 100 \<Longrightarrow> showNat n = [digitChar (n div 10), digitChar (n mod 10)]"
  by (subst showNat.simps) (simp add: showNat_1digit)

lemma showNat_3digit:
  "100 \<le> n \<Longrightarrow> n < 1000 \<Longrightarrow>
   showNat n = [digitChar (n div 100), digitChar (n div 10 mod 10), digitChar (n mod 10)]"
  by (subst showNat.simps) (simp add: showNat_2digit div_mult2_eq[symmetric])

lemma showNat_4digit:
  "1000 \<le> n \<Longrightarrow> n < 10000 \<Longrightarrow>
   showNat n = [digitChar (n div 1000), digitChar (n div 100 mod 10), digitChar (n div 10 mod 10),
                digitChar (n mod 10)]"
  by (subst showNat.simps) (simp add: showNat_3digit div_mult2_eq[symmetric])

lemma digitChar_0: "digitChar 0 = CHR ''0''"
  by (simp add: digitChar_def)

lemma replicate_small: "replicate 2 c = [c, c]" "replicate 3 c = [c, c, c]"
  by (simp_all add: numeral_2_eq_2 numeral_3_eq_3)

lemma addLeadingZeros_2:
  assumes "n < 100"
  shows "addLeadingZeros n 2 = [digitChar (n div 10), digitChar (n mod 10)]"
proof (cases "n < 10")
  case True
  then show ?thesis by (simp add: addLeadingZeros_def showNat_1digit digitChar_0)
next
  case False
  then show ?thesis using assms by (simp add: addLeadingZeros_def showNat_2digit)
qed

lemma addLeadingZeros_4:
  assumes "n < 10000"
  shows "addLeadingZeros n 4 =
     [digitChar (n div 1000), digitChar (n div 100 mod 10), digitChar (n div 10 mod 10),
      digitChar (n mod 10)]"
proof -
  consider "n < 10" | "10 \<le> n" "n < 100" | "100 \<le> n" "n < 1000" | "1000 \<le> n"
    by linarith
  then show ?thesis
  proof cases
    case 1
    then show ?thesis
      by (simp add: addLeadingZeros_def showNat_1digit digitChar_0 replicate_small)
  next
    case 2
    then show ?thesis
      by (simp add: addLeadingZeros_def showNat_2digit digitChar_0 replicate_small)
  next
    case 3
    then show ?thesis
      by (simp add: addLeadingZeros_def showNat_3digit digitChar_0)
  next
    case 4
    then show ?thesis using assms
      by (simp add: addLeadingZeros_def showNat_4digit)
  qed
qed

lemma formatDay_civil:
  assumes "civilFromDays z = (y, m, d)" "0 < y" "y < 10000" "0 \<le> m" "m < 100" "0 \<le> d" "d < 100"
  shows "formatDay z =
     [digitChar (nat y div 1000), digitChar (nat y div 100 mod 10), digitChar (nat y div 10 mod 10),
      digitChar (nat y mod 10), CHR ''-'', digitChar (nat m div 10), digitChar (nat m mod 10),
      CHR ''-'', digitChar (nat d div 10), digitChar (nat d mod 10)]"
  using assms by (simp add: formatDay_def addLeadingZeros_2 addLeadingZeros_4)


lemma civilFromDays_examples:
  "civilFromDays 19752 = (2024, 1, 30)"
  "civilFromDays 19753 = (2024, 1, 31)"
  "civilFromDays 19782 = (2024, 2, 29)"
  "civilFromDays 19783 = (2024, 3, 1)"
  "civilFromDays 19812 = (2024, 3, 30)"
  "civilFromDays 19813 = (2024, 3, 31)"
  "civilFromDays 19874 = (2024, 5, 31)"
  "civilFromDays 19875 = (2024, 6, 1)"
  "civilFromDays 19876 = (2024, 6, 2)"
  "civilFromDays 19877 = (2024, 6, 3)"
  "civilFromDays 19878 = (2024, 6, 4)"
  "civilFromDays 19883 = (2024, 6, 9)"
  "civilFromDays 19884 = (2024, 6, 10)"
  by (simp_all add: civil_defs)

lemma formatDay_examples:
  "formatDay 19752 = ''2024-01-30''"
  "formatDay 19753 = ''2024-01-31''"
  "formatDay 19782 = ''2024-02-29''"
  "formatDay 19783 = ''2024-03-01''"
  "formatDay 19812 = ''2024-03-30''"
  "formatDay 19813 = ''2024-03-31''"
  "formatDay 19874 = ''2024-05-31''"
  "formatDay 19875 = ''2024-06-01''"
  "formatDay 19876 = ''2024-06-02''"
  "formatDay 19877 = ''2024-06-03''"
  "formatDay 19878 = ''2024-06-04''"
  "formatDay 19883 = ''2024-06-09''"
  "formatDay 19884 = ''2024-06-10''"
  by (simp_all add: formatDay_def civilFromDays_examples addLeadingZeros_2 addLeadingZeros_4
      digitChar_def)

lemma daysFromCivil_examples:
  "daysFromCivil 2024 6 1 = 19875"
  "daysFromCivil 2024 6 3 = 19877"
  "daysFromCivil 2024 6 4 = 19878"
  "daysFromCivil 2024 1 31 = 19753"
  "daysFromCivil 2024 3 1 = 19783"
  "daysFromCivil 2000 1 1 = 10957"
  by (simp_all add: daysFromCivil_def daysBeforeYear_def daysBeforeMonth_def)

lemma daysInMonth_examples:
  "daysInMonth 2024 6 = 30" "daysInMonth 2024 1 = 31" "daysInMonth 2000 1 = 31"
  by (simp_all add: daysInMonth_def leapYear_def)

lemma isoDate_examples:
  "isoDate ''2024-06-01'' = Some (19875 * msPerDay)"
  "isoDate ''2024-06-03'' = Some (19877 * msPerDay)"
  "isoDate ''2024-06-04'' = Some (19878 * msPerDay)"
  "isoDate ''2024-01-31'' = Some (19753 * msPerDay)"
  "isoDate ''2000-01-01'' = Some (10957 * msPerDay)"
  "isoDate ''someday'' = None"
  by (simp_all add: isoDate_def readNat_def isDigit_def digitVal_def
      daysFromCivil_examples
      daysInMonth_examples)

lemma timeClip_examples:
  "timeClip (19875 * msPerDay) = Some (19875 * msPerDay)"
  "timeClip (19877 * msPerDay) = Some (19877 * msPerDay)"
  "timeClip (19878 * msPerDay) = Some (19878 * msPerDay)"
  "timeClip (19753 * msPerDay) = Some (19753 * msPerDay)"
  "timeClip (10957 * msPerDay) = Some (10957 * msPerDay)"
  by (rule timeClip_Some; simp add: msPerDay_def maxTime_def)+

lemma newDate_examples:
  "newDate e ''2024-06-01'' = Some (19875 * msPerDay)"
  "newDate e ''2024-06-03'' = Some (19877 * msPerDay)"
  "newDate e ''2024-06-04'' = Some (19878 * msPerDay)"
  "newDate e ''2024-01-31'' = Some (19753 * msPerDay)"
  "newDate e ''2000-01-01'' = Some (10957 * msPerDay)"
  "newDate (envAt tz t) ''someday'' = None"
  by (simp_all add: newDate_def isoDate_examples timeClip_examples envAt_def)

lemma upt_examples:
  "[0..<1] = [0]" "[0..<2] = [0, 1]" "[0..<3] = [0, 1, 2]" "[0..<4] = [0, 1, 2, 3]"
  by (simp_all add: upt_rec)

lemma showNat_examples: "showNat 3 = ''3''" "showNat 0 = ''0''" "showNat 1 = ''1''" "showNat 2 = ''2''"
  by (simp_all add: showNat_1digit digitChar_def)

subsection \<open>Runs on a single rule\<close>

lemma materialize_single_due:
  assumes "isFrequency (frequency rule)" "active rule" "newDate e (nextDueDate rule) = Some c"
    "localDay e c \<le> localDay e (now e)" "now e + 366 * msPerDay \<le> maxTime"
  shows "materialize e [rule] =
     Some \<lparr>newTransactions = occurrences e rule c 0 (dueCount e (frequency rule) c),
           updatedRules =
             [rule\<lparr>nextDueDate := formatDay (localDay e c
                      + int (dueCount e (frequency rule) c) * stepDays (frequency rule)),
                    lastRun := Some (formatDay (localDay e (now e)))\<rparr>],
           generatedCount = dueCount e (frequency rule) c\<rparr>"
  by (simp add: materialize_single processRule_due[OF assms] occurrences_length)

lemma materialize_single_skip:
  assumes "\<not> active rule \<or> \<not> due e (newDate e (nextDueDate rule))"
  shows "materialize e [rule] =
     Some \<lparr>newTransactions = [], updatedRules = [rule], generatedCount = 0\<rparr>"
  using assms processRule_inactive[of rule e "[]" False 0] processRule_not_due[of e rule "[]" False 0]
  by (auto simp: materialize_single)

lemma foodRule_fields:
  "frequency (foodRule f d) = f" "nextDueDate (foodRule f d) = d" "active (foodRule f d)"
  "expenseTemplate (foodRule f d) = foodTemplate"
  by (simp_all add: foodRule_def)

lemma billsRule_fields:
  "frequency (billsRule f d) = f" "nextDueDate (billsRule f d) = d" "active (billsRule f d)"
  "expenseTemplate (billsRule f d) = billsTemplate"
  by (simp_all add: billsRule_def)

lemma envAt_fields: "tzOffset (envAt tz t) = tz" "now (envAt tz t) = t"
  by (simp_all add: envAt_def)

lemma stepDays_examples:
  "stepDays ''daily'' = 1" "stepDays ''weekly'' = 7" "stepDays ''monthly'' = 30"
  "stepDays ''yearly'' = 365" "stepDays ''hourly'' = 0"
  by (simp_all add: stepDays_def)

lemma isFrequency_examples:
  "isFrequency ''daily''" "isFrequency ''weekly''" "isFrequency ''monthly''"
  "isFrequency ''yearly''" "\<not> isFrequency ''hourly''"
  by (simp_all add: isFrequency_def)

text \<open>
  Local days five hours west of Greenwich (offset \<open>- 300\<close>), where 17:00 UTC is
  noon, and on the meridian.
\<close>

lemma localDay_west_examples:
  "localDay (envAt (- 300) t) (utc 2024 6 3 17) = 19877"
  "localDay (envAt (- 300) t) (utc 2024 3 1 17) = 19783"
  "localDay (envAt (- 300) t) (19875 * msPerDay) = 19874"
  "localDay (envAt (- 300) t) (19877 * msPerDay) = 19876"
  "localDay (envAt (- 300) t) (19878 * msPerDay) = 19877"
  "localDay (envAt (- 300) t) (19753 * msPerDay) = 19752"
  by (simp_all add: localDay_def envAt_fields msPerDay_def utc_def daysFromCivil_examples)

lemma localDay_utc_examples:
  "localDay (envAt 0 t) (utc 2024 6 3 12) = 19877"
  "localDay (envAt 0 t) (19875 * msPerDay) = 19875"
  "localDay (envAt 0 t) (10957 * msPerDay) = 10957"
  "localDay (envAt 330 t) (utc 2024 6 3 2) = 19877"
  "localDay (envAt 330 t) (utc 2024 3 1 2) = 19783"
  by (simp_all add: localDay_def envAt_fields msPerDay_def utc_def daysFromCivil_examples)

text \<open>The clocks of the examples are far from the end of the range of time values.\<close>

lemma clock_examples:
  "now (envAt tz (utc 2024 6 3 12)) + 366 * msPerDay \<le> maxTime"
  "now (envAt tz (utc 2024 6 3 17)) + 366 * msPerDay \<le> maxTime"
  "now (envAt tz (utc 2024 6 3 2)) + 366 * msPerDay \<le> maxTime"
  "now (envAt tz (utc 2024 3 1 17)) + 366 * msPerDay \<le> maxTime"
  "now (envAt tz (utc 2024 3 1 2)) + 366 * msPerDay \<le> maxTime"
  by (simp_all add: envAt_fields utc_def daysFromCivil_examples msPerDay_def maxTime_def)

text \<open>The scenario of the specification on the meridian, at noon of 2024-06-03.\<close>

lemma run_utc_daily:
  "materialize (envAt 0 (utc 2024 6 3 12)) [foodRule ''daily'' ''2024-06-01''] =
     Some \<lparr>newTransactions =
             [newExpense (envAt 0 (utc 2024 6 3 12)) (foodRule ''daily'' ''2024-06-01'') ''2024-06-01'' 0,
              newExpense (envAt 0 (utc 2024 6 3 12)) (foodRule ''daily'' ''2024-06-01'') ''2024-06-02'' 1,
              newExpense (envAt 0 (utc 2024 6 3 12)) (foodRule ''daily'' ''2024-06-01'') ''2024-06-03'' 2],
           updatedRules =
             [(foodRule ''daily'' ''2024-06-01'')
                \<lparr>nextDueDate := ''2024-06-04'', lastRun := Some ''2024-06-03''\<rparr>],
           generatedCount = 3\<rparr>"
proof -
  let ?e = "envAt 0 (utc 2024 6 3 12)"
  let ?r = "foodRule ''daily'' ''2024-06-01''"
  have 1: "isFrequency (frequency ?r)" "active ?r" "newDate ?e (nextDueDate ?r) = Some (19875 * msPerDay)"
    by (simp_all add: foodRule_fields isFrequency_examples newDate_examples)
  have 2: "localDay ?e (19875 * msPerDay) \<le> localDay ?e (now ?e)"
    by (simp add: envAt_fields localDay_utc_examples)
  have 3: "dueCount ?e (frequency ?r) (19875 * msPerDay) = 3"
    by (simp add: dueCount_def foodRule_fields envAt_fields localDay_utc_examples stepDays_examples)
  show ?thesis
    unfolding materialize_single_due[OF 1 2 clock_examples(1)] 3
    by (simp add: envAt_fields localDay_utc_examples formatDay_examples
        occurrences_def upt_examples foodRule_fields stepDays_examples)
qed

lemma processRule_food:
  "processRule (envAt 0 (utc 2024 6 3 12)) ([], False, 0) (foodRule ''daily'' ''2024-06-01'') =
     Some ((foodRule ''daily'' ''2024-06-01'')\<lparr>nextDueDate := ''2024-06-04'', lastRun := Some ''2024-06-03''\<rparr>,
           ([newExpense (envAt 0 (utc 2024 6 3 12)) (foodRule ''daily'' ''2024-06-01'') ''2024-06-01'' 0,
             newExpense (envAt 0 (utc 2024 6 3 12)) (foodRule ''daily'' ''2024-06-01'') ''2024-06-02'' 1,
             newExpense (envAt 0 (utc 2024 6 3 12)) (foodRule ''daily'' ''2024-06-01'') ''2024-06-03'' 2],
            True, 3))"
proof -
  let ?e = "envAt 0 (utc 2024 6 3 12)"
  let ?r = "foodRule ''daily'' ''2024-06-01''"
  have 1: "isFrequency (frequency ?r)" "active ?r" "newDate ?e (nextDueDate ?r) = Some (19875 * msPerDay)"
    by (simp_all add: foodRule_fields isFrequency_examples newDate_examples)
  have 2: "localDay ?e (19875 * msPerDay) \<le> localDay ?e (now ?e)"
    by (simp add: envAt_fields localDay_utc_examples)
  have 3: "dueCount ?e (frequency ?r) (19875 * msPerDay) = 3"
    by (simp add: dueCount_def foodRule_fields envAt_fields localDay_utc_examples stepDays_examples)
  show ?thesis
    unfolding processRule_due[OF 1 2 clock_examples(1)] 3
    by (simp add: envAt_fields localDay_utc_examples formatDay_examples
        occurrences_def upt_examples foodRule_fields stepDays_examples)
qed

lemma processRule_bills:
  "processRule (envAt 0 (utc 2024 6 3 12)) (ne, h, 3) (billsRule ''daily'' ''2024-06-03'') =
     Some ((billsRule ''daily'' ''2024-06-03'')\<lparr>nextDueDate := ''2024-06-04'', lastRun := Some ''2024-06-03''\<rparr>,
           (ne @ [newExpense (envAt 0 (utc 2024 6 3 12)) (billsRule ''daily'' ''2024-06-03'') ''2024-06-03'' 3],
            True, 4))"
proof -
  let ?e = "envAt 0 (utc 2024 6 3 12)"
  let ?r = "billsRule ''daily'' ''2024-06-03''"
  have d: "localDay ?e (19877 * msPerDay) = 19877"
    by (rule localDay_midnight_east) (simp_all add: envAt_fields)
  have 1: "isFrequency (frequency ?r)" "active ?r" "newDate ?e (nextDueDate ?r) = Some (19877 * msPerDay)"
    by (simp_all add: billsRule_fields isFrequency_examples newDate_examples)
  have 2: "localDay ?e (19877 * msPerDay) \<le> localDay ?e (now ?e)"
    by (simp add: d envAt_fields localDay_utc_examples)
  have 3: "dueCount ?e (frequency ?r) (19877 * msPerDay) = 1"
    by (simp add: dueCount_def d billsRule_fields envAt_fields localDay_utc_examples stepDays_examples)
  show ?thesis
    unfolding processRule_due[OF 1 2 clock_examples(1)] 3
    by (simp add: d envAt_fields localDay_utc_examples formatDay_examples
        occurrences_def upt_examples billsRule_fields stepDays_examples)
qed

text \<open>Two rules with different templates, on the meridian at noon of 2024-06-03.\<close>

lemma run_utc_two:
  "materialize (envAt 0 (utc 2024 6 3 12))
       [foodRule ''daily'' ''2024-06-01'', billsRule ''daily'' ''2024-06-03''] =
     Some \<lparr>newTransactions =
             [newExpense (envAt 0 (utc 2024 6 3 12)) (foodRule ''daily'' ''2024-06-01'') ''2024-06-01'' 0,
              newExpense (envAt 0 (utc 2024 6 3 12)) (foodRule ''daily'' ''2024-06-01'') ''2024-06-02'' 1,
              newExpense (envAt 0 (utc 2024 6 3 12)) (foodRule ''daily'' ''2024-06-01'') ''2024-06-03'' 2,
              newExpense (envAt 0 (utc 2024 6 3 12)) (billsRule ''daily'' ''2024-06-03'') ''2024-06-03'' 3],
           updatedRules =
             [(foodRule ''daily'' ''2024-06-01'')
                \<lparr>nextDueDate := ''2024-06-04'', lastRun := Some ''2024-06-03''\<rparr>,
              (billsRule ''daily'' ''2024-06-03'')
                \<lparr>nextDueDate := ''2024-06-04'', lastRun := Some ''2024-06-03''\<rparr>],
           generatedCount = 4\<rparr>"
  by (simp add: materialize_def processRule_food processRule_bills)

subsection \<open>The calendar: a day number and its civil date\<close>

lemma int_div_bounds:
  fixes a b :: int
  assumes "0 < b"
  shows "b * (a div b) \<le> a" "a < b * (a div b) + b"
proof -
  have "a = b * (a div b) + a mod b" by simp
  moreover have "0 \<le> a mod b" "a mod b < b" using assms by simp_all
  ultimately show "b * (a div b) \<le> a" "a < b * (a div b) + b" by linarith+
qed

lemma succ_div:
  fixes x n :: int
  assumes "0 < n"
  shows "(x + 1) div n = x div n + (if (x + 1) mod n = 0 then 1 else 0)"
proof (cases "x mod n + 1 < n")
  case True
  have e: "x + 1 = n * (x div n) + (x mod n + 1)" by simp
  have r: "0 \<le> x mod n + 1" using assms by (simp add: add_nonneg_nonneg)
  have "(x + 1) div n = x div n" using e r True by (rule int_div_pos_eq)
  moreover have "(x + 1) mod n = x mod n + 1" using e r True by (rule int_mod_pos_eq)
  moreover have "0 \<le> x mod n" using assms by simp
  ultimately show ?thesis by simp
next
  case False
  moreover have "x mod n < n" using assms by simp
  ultimately have m: "x mod n + 1 = n" by linarith
  have "x + 1 = n * (x div n) + (x mod n + 1)" by simp
  then have e: "x + 1 = n * (x div n + 1) + 0" unfolding m by (simp add: algebra_simps)
  have "(x + 1) div n = x div n + 1" using e _ assms by (rule int_div_pos_eq) simp
  moreover have "(x + 1) mod n = 0" using e _ assms by (rule int_mod_pos_eq) simp
  ultimately show ?thesis by simp
qed

lemma enum12:
  "0 \<le> (mp::int) \<Longrightarrow> mp \<le> 11 \<Longrightarrow> mp \<in> {0, 1, 2, 3, 4, 5, 6, 7, 8, 9, 10, 11}"
  by (simp only: insert_iff empty_iff) presburger

lemma monthIndex_correct:
  assumes "0 \<le> doy" "doy \<le> 365"
  shows "0 \<le> monthIndex doy \<and> monthIndex doy \<le> 11 \<and>
         daysBeforeMonth (monthIndex doy) \<le> doy \<and>
         (monthIndex doy < 11 \<longrightarrow> doy < daysBeforeMonth (monthIndex doy + 1)) \<and>
         (10 \<le> monthIndex doy \<longleftrightarrow> 306 \<le> doy)"
proof -
  define mp where "mp = monthIndex doy"
  have lo: "153 * mp \<le> 5 * doy + 2" and hi: "5 * doy + 2 < 153 * mp + 153"
    unfolding mp_def monthIndex_def using int_div_bounds[of 153 "5 * doy + 2"] by simp_all
  have "0 \<le> mp" "mp \<le> 11" using lo hi assms by linarith+
  then have "mp \<in> {0, 1, 2, 3, 4, 5, 6, 7, 8, 9, 10, 11}"
    by (rule enum12)
  then show ?thesis
    using lo hi assms unfolding mp_def[symmetric]
    by (elim insertE emptyE) (simp_all add: daysBeforeMonth_def)
qed

text \<open>The lengths of the months, March first.\<close>

lemma month_length:
  assumes "0 \<le> mp" "mp \<le> 10"
  shows "daysBeforeMonth (mp + 1) - daysBeforeMonth mp =
         daysInMonth y (if mp < 10 then mp + 3 else mp - 9)"
proof -
  from assms have "mp \<in> {0, 1, 2, 3, 4, 5, 6, 7, 8, 9, 10, 11}"
    by (intro enum12) simp_all
  then show ?thesis
    using assms(2) by (elim insertE emptyE) (simp_all add: daysBeforeMonth_def daysInMonth_def)
qed

lemma mod_100_4: "(x::int) mod 100 = 0 \<Longrightarrow> x mod 4 = 0"
  by presburger

lemma daysBeforeYear_lower: "0 \<le> y \<Longrightarrow> 365 * y \<le> daysBeforeYear y"
proof -
  assume "0 \<le> y"
  then have "y div 100 \<le> y div 4" by (rule zdiv_mono2) simp_all
  then show ?thesis by (simp add: daysBeforeYear_def)
qed

lemma daysBeforeYear_upper: "0 \<le> y \<Longrightarrow> y \<le> 400 \<Longrightarrow> daysBeforeYear y \<le> 365 * y + 100"
proof -
  assume a: "0 \<le> y" "y \<le> 400"
  have "4 * (y div 4) \<le> y" using int_div_bounds[of 4 y] by simp
  moreover have "y < 100 * (y div 100) + 100" using int_div_bounds[of 100 y] by simp
  ultimately have "y div 4 \<le> 100" "0 \<le> y div 100" using a by linarith+
  then show ?thesis by (simp add: daysBeforeYear_def)
qed

lemma daysBeforeYear_399: "daysBeforeYear 399 = 145731"
  by (simp add: daysBeforeYear_def)

lemma daysBeforeYear_400: "daysBeforeYear 400 = 146096"
  by (simp add: daysBeforeYear_def)

lemma daysBeforeYear_0: "daysBeforeYear 0 = 0"
  by (simp add: daysBeforeYear_def)

text \<open>The length of the year \<open>y\<close> of an era, which ends with February.\<close>

lemma daysBeforeYear_Suc:
  "daysBeforeYear (y + 1) =
     daysBeforeYear y + 365 + (if (y + 1) mod 4 = 0 then 1 else 0)
       - (if (y + 1) mod 100 = 0 then 1 else 0)"
  unfolding daysBeforeYear_def
  by (simp only: succ_div[of 4 y] succ_div[of 100 y]) (simp add: algebra_simps)

lemma yearOfEra_correct:
  assumes "0 \<le> doe" "doe \<le> 146096"
  shows "0 \<le> yearOfEra doe \<and> yearOfEra doe \<le> 399 \<and>
         daysBeforeYear (yearOfEra doe) \<le> doe \<and>
         (doe < daysBeforeYear (yearOfEra doe + 1) \<or> (yearOfEra doe = 399 \<and> doe = 146096))"
proof -
  define g where "g = doe div 365"
  have g: "365 * g \<le> doe" "doe < 365 * g + 365"
    unfolding g_def using int_div_bounds[of 365 doe] by simp_all
  have g0: "0 \<le> g" using g(2) assms(1) by linarith
  show ?thesis
  proof (cases "g \<le> 399")
    case False
    then have "min 399 g = 399" by simp
    moreover have d: "145731 \<le> doe" using False g(1) by linarith
    ultimately have y: "yearOfEra doe = 399"
      by (simp add: yearOfEra_def g_def[symmetric] daysBeforeYear_399)
    have "doe < 146096 \<or> doe = 146096" using assms(2) by linarith
    then show ?thesis
      unfolding y using d by (simp add: daysBeforeYear_399 daysBeforeYear_400)
  next
    case True
    then have m: "min 399 g = g" by simp
    show ?thesis
    proof (cases "daysBeforeYear g \<le> doe")
      case T2: True
      then have y: "yearOfEra doe = g"
        by (simp add: yearOfEra_def g_def[symmetric] m)
      have "365 * (g + 1) \<le> daysBeforeYear (g + 1)"
        using g0 by (intro daysBeforeYear_lower) simp
      then have "365 * g + 365 \<le> daysBeforeYear (g + 1)" by (simp add: algebra_simps)
      then have "doe < daysBeforeYear (g + 1)" using g(2) by linarith
      then show ?thesis unfolding y using g0 True T2 by simp
    next
      case F2: False
      then have y: "yearOfEra doe = g - 1"
        by (simp add: yearOfEra_def g_def[symmetric] m)
      have "g \<noteq> 0" using F2 assms(1) by (auto simp: daysBeforeYear_0)
      then have g1: "1 \<le> g" using g0 by simp
      have "daysBeforeYear (g - 1) \<le> 365 * (g - 1) + 100"
        using g1 True by (intro daysBeforeYear_upper) simp_all
      then have "daysBeforeYear (g - 1) \<le> 365 * g - 265" by (simp add: algebra_simps)
      then have "daysBeforeYear (g - 1) \<le> doe" using g(1) by linarith
      then show ?thesis unfolding y using g1 True F2 by simp
    qed
  qed
qed

text \<open>The day of the year, and the leap day at its end.\<close>

lemma dayOfYear_bounds:
  assumes "0 \<le> yoe" "yoe \<le> 399" "daysBeforeYear yoe \<le> doe"
    "doe < daysBeforeYear (yoe + 1) \<or> (yoe = 399 \<and> doe = 146096)"
  shows "0 \<le> doe - daysBeforeYear yoe \<and> doe - daysBeforeYear yoe \<le> 365 \<and>
         (doe - daysBeforeYear yoe = 365 \<longrightarrow>
            (yoe + 1) mod 4 = 0 \<and> ((yoe + 1) mod 100 \<noteq> 0 \<or> (yoe + 1) mod 400 = 0))"
proof (cases "yoe = 399 \<and> doe = 146096")
  case True
  then show ?thesis by (simp add: daysBeforeYear_399)
next
  case False
  with assms(4) have lt: "doe < daysBeforeYear (yoe + 1)" by blast
  show ?thesis
  proof (cases "(yoe + 1) mod 4 = 0")
    case True
    then show ?thesis
      using lt assms(3) by (auto simp: daysBeforeYear_Suc split: if_splits)
  next
    case F: False
    then have "(yoe + 1) mod 100 \<noteq> 0" using mod_100_4[of "yoe + 1"] by auto
    then show ?thesis
      using lt assms(3) F by (auto simp: daysBeforeYear_Suc split: if_splits)
  qed
qed

text \<open>The parts of a day number, with what is known of each.\<close>

lemma civilFromDays_parts:
  obtains era doe yoe doy mp where
    "z + 719468 = era * 146097 + doe" "0 \<le> doe" "doe \<le> 146096"
    "0 \<le> yoe" "yoe \<le> 399" "doe = daysBeforeYear yoe + doy" "0 \<le> doy" "doy \<le> 365"
    "doy = 365 \<longrightarrow> (yoe + 1) mod 4 = 0 \<and> ((yoe + 1) mod 100 \<noteq> 0 \<or> (yoe + 1) mod 400 = 0)"
    "0 \<le> mp" "mp \<le> 11" "daysBeforeMonth mp \<le> doy"
    "mp < 11 \<longrightarrow> doy < daysBeforeMonth (mp + 1)" "10 \<le> mp \<longleftrightarrow> 306 \<le> doy"
    "civilFromDays z = civilOfMonth (yoe + era * 400) mp doy"
proof -
  define era where "era = (z + 719468) div 146097"
  define doe where "doe = (z + 719468) mod 146097"
  define yoe where "yoe = yearOfEra doe"
  define doy where "doy = doe - daysBeforeYear yoe"
  define mp where "mp = monthIndex doy"
  have 1: "z + 719468 = era * 146097 + doe" unfolding era_def doe_def by simp
  have 2: "0 \<le> doe" "doe \<le> 146096" unfolding doe_def by simp_all
  note y = yearOfEra_correct[OF 2, folded yoe_def]
  from y have 3: "0 \<le> yoe" "yoe \<le> 399" by simp_all
  have 6: "doe = daysBeforeYear yoe + doy" by (simp add: doy_def)
  from y have d: "0 \<le> doy \<and> doy \<le> 365 \<and>
      (doy = 365 \<longrightarrow> (yoe + 1) mod 4 = 0 \<and> ((yoe + 1) mod 100 \<noteq> 0 \<or> (yoe + 1) mod 400 = 0))"
    unfolding doy_def by (intro dayOfYear_bounds) simp_all
  then have 4: "0 \<le> doy" "doy \<le> 365" by simp_all
  from d have 7:
    "doy = 365 \<longrightarrow> (yoe + 1) mod 4 = 0 \<and> ((yoe + 1) mod 100 \<noteq> 0 \<or> (yoe + 1) mod 400 = 0)"
    by (rule conjunct2[THEN conjunct2])
  note m = monthIndex_correct[OF 4, folded mp_def]
  from m have 8: "0 \<le> mp" "mp \<le> 11" "daysBeforeMonth mp \<le> doy"
    "mp < 11 \<longrightarrow> doy < daysBeforeMonth (mp + 1)" "10 \<le> mp \<longleftrightarrow> 306 \<le> doy"
    by blast+
  have 5: "civilFromDays z = civilOfMonth (yoe + era * 400) mp doy"
    by (simp add: civilFromDays_def civilOfYear_def era_def doe_def yoe_def doy_def mp_def)
  show thesis
    by (rule that[OF 1 2 3 6 4 7 8 5])
qed

lemma era_year_div_mod:
  assumes "0 \<le> yoe" "yoe \<le> 399"
  shows "(yoe + era * 400) div 400 = era" "(yoe + era * 400) mod 400 = (yoe::int)"
  using assms by (simp_all add: div_pos_pos_trivial)

lemma year_of_era_div_mod:
  assumes "0 \<le> yoe" "yoe \<le> 399"
  shows "yoe div 400 = 0" "yoe mod 400 = (yoe::int)"
  using assms by (simp_all add: div_pos_pos_trivial)

lemma leapYear_era:
  "leapYear (yoe + era * 400 + 1) \<longleftrightarrow>
     (yoe + 1) mod 4 = 0 \<and> ((yoe + 1) mod 100 \<noteq> 0 \<or> (yoe + 1) mod 400 = 0)"
proof -
  have "(yoe + era * 400 + 1) mod 4 = (yoe + 1 + 4 * (era * 100)) mod 4" by (simp add: algebra_simps)
  also have "\<dots> = (yoe + 1) mod 4" by (simp only: mod_mult_self2)
  finally have a: "(yoe + era * 400 + 1) mod 4 = (yoe + 1) mod 4" .
  have "(yoe + era * 400 + 1) mod 100 = (yoe + 1 + 100 * (era * 4)) mod 100" by (simp add: algebra_simps)
  also have "\<dots> = (yoe + 1) mod 100" by (simp only: mod_mult_self2)
  finally have b: "(yoe + era * 400 + 1) mod 100 = (yoe + 1) mod 100" .
  have "(yoe + era * 400 + 1) mod 400 = (yoe + 1 + 400 * era) mod 400" by (simp add: algebra_simps)
  also have "\<dots> = (yoe + 1) mod 400" by (simp only: mod_mult_self2)
  finally have c: "(yoe + era * 400 + 1) mod 400 = (yoe + 1) mod 400" .
  show ?thesis by (simp add: leapYear_def a b c)
qed

text \<open>
  The civil date of a day number is a date of the calendar, and
  \<open>daysFromCivil\<close> takes it back to the day number.
\<close>

lemma civilFromDays_correct:
  assumes "civilFromDays z = (y, m, d)"
  shows "1 \<le> m \<and> m \<le> 12 \<and> 1 \<le> d \<and> d \<le> daysInMonth y m \<and> daysFromCivil y m d = z"
proof -
  obtain era doe yoe doy mp where p:
    "z + 719468 = era * 146097 + doe" "0 \<le> doe" "doe \<le> 146096"
    "0 \<le> yoe" "yoe \<le> 399" "doe = daysBeforeYear yoe + doy" "0 \<le> doy" "doy \<le> 365"
    "doy = 365 \<longrightarrow> (yoe + 1) mod 4 = 0 \<and> ((yoe + 1) mod 100 \<noteq> 0 \<or> (yoe + 1) mod 400 = 0)"
    "0 \<le> mp" "mp \<le> 11" "daysBeforeMonth mp \<le> doy"
    "mp < 11 \<longrightarrow> doy < daysBeforeMonth (mp + 1)" "10 \<le> mp \<longleftrightarrow> 306 \<le> doy"
    "civilFromDays z = civilOfMonth (yoe + era * 400) mp doy"
    by (rule civilFromDays_parts)
  note dm = era_year_div_mod[OF p(4,5), of era] year_of_era_div_mod[OF p(4,5)]
  show ?thesis
  proof (cases "mp < 10")
    case True
    with assms p(15) have e: "y = yoe + era * 400" "m = mp + 3" "d = doy - daysBeforeMonth mp + 1"
      by (simp_all add: civilOfMonth_def)
    have len: "daysBeforeMonth (mp + 1) - daysBeforeMonth mp = daysInMonth y m"
      using month_length[of mp y] p(10) True e(2) by simp
    have "doy < daysBeforeMonth (mp + 1)" using p(13) True by simp
    then have "d \<le> daysInMonth y m" using len e(3) by linarith
    moreover have "daysFromCivil y m d = z"
      using p(1,6,10) True unfolding e by (simp add: daysFromCivil_def dm Let_def)
    ultimately show ?thesis using p(10,12) True e(2,3) by simp
  next
    case False
    with assms p(15) have e: "y = yoe + era * 400 + 1" "m = mp - 9" "d = doy - daysBeforeMonth mp + 1"
      by (simp_all add: civilOfMonth_def)
    from False p(11) have mp: "mp = 10 \<or> mp = 11" by linarith
    have "d \<le> daysInMonth y m"
    proof (cases "mp = 10")
      case True
      have "daysBeforeMonth (mp + 1) - daysBeforeMonth mp = daysInMonth y m"
        using month_length[of mp y] True e(2) by simp
      moreover have "doy < daysBeforeMonth (mp + 1)" using p(13) True by simp
      ultimately show ?thesis using e(3) by linarith
    next
      case F: False
      with mp have m11: "mp = 11" by simp
      have b: "daysBeforeMonth 11 = 337" by (simp add: daysBeforeMonth_def)
      show ?thesis
      proof (cases "doy = 365")
        case True
        with p(9) have "leapYear y" unfolding e(1) by (simp add: leapYear_era)
        then show ?thesis using e(2,3) m11 b True by (simp add: daysInMonth_def)
      next
        case False
        with p(8) have "doy \<le> 364" by simp
        then show ?thesis using e(2,3) m11 b by (simp add: daysInMonth_def)
      qed
    qed
    moreover have "daysFromCivil y m d = z"
      using p(1,6) mp unfolding e by (auto simp: daysFromCivil_def dm Let_def)
    ultimately show ?thesis using p(12) mp e(2,3) by auto
  qed
qed

text \<open>Day numbers from 0001-01-01 to 9999-12-31 have years of four digits.\<close>

lemma civilFromDays_year:
  assumes "civilFromDays z = (y, m, d)" "- 719162 \<le> z" "z \<le> 2932896"
  shows "1 \<le> y \<and> y \<le> 9999"
proof -
  obtain era doe yoe doy mp where p:
    "z + 719468 = era * 146097 + doe" "0 \<le> doe" "doe \<le> 146096"
    "0 \<le> yoe" "yoe \<le> 399" "doe = daysBeforeYear yoe + doy" "0 \<le> doy" "doy \<le> 365"
    "doy = 365 \<longrightarrow> (yoe + 1) mod 4 = 0 \<and> ((yoe + 1) mod 100 \<noteq> 0 \<or> (yoe + 1) mod 400 = 0)"
    "0 \<le> mp" "mp \<le> 11" "daysBeforeMonth mp \<le> doy"
    "mp < 11 \<longrightarrow> doy < daysBeforeMonth (mp + 1)" "10 \<le> mp \<longleftrightarrow> 306 \<le> doy"
    "civilFromDays z = civilOfMonth (yoe + era * 400) mp doy"
    by (rule civilFromDays_parts)
  have era: "0 \<le> era" "era \<le> 24" using p(1-3) assms(2,3) by linarith+
  have y: "y = yoe + era * 400 + (if mp < 10 then 0 else 1)"
    using assms(1) p(15) by (simp add: civilOfMonth_def split: if_splits)
  have lo: "1 \<le> y"
  proof (cases "era = 0 \<and> yoe = 0")
    case True
    then have "306 \<le> doy" using p(1,6) assms(2) by (simp add: daysBeforeYear_0)
    then show ?thesis using y p(14) True by simp
  next
    case False
    then have "1 \<le> yoe + era * 400" using era(1) p(4) by linarith
    then show ?thesis using y by simp
  qed
  have hi: "y \<le> 9999"
  proof (cases "era = 24 \<and> yoe = 399")
    case True
    then have "doy < 306" using p(1,6) assms(3) by (simp add: daysBeforeYear_399)
    then show ?thesis using y p(14) True by simp
  next
    case False
    then have "yoe + era * 400 \<le> 9998" using era(2) p(5) by linarith
    then show ?thesis using y by simp
  qed
  from lo hi show ?thesis ..
qed

subsection \<open>Reading back what was printed\<close>

lemma enum10: "(n::nat) < 10 \<Longrightarrow> n \<in> {0, 1, 2, 3, 4, 5, 6, 7, 8, 9}"
  by auto

lemma digitChar_isDigit: "n < 10 \<Longrightarrow> isDigit (digitChar n)"
  by (drule enum10) (auto simp: digitChar_def isDigit_def)

lemma digitVal_digitChar: "n < 10 \<Longrightarrow> digitVal (digitChar n) = n"
  by (drule enum10) (auto simp: digitChar_def digitVal_def)

lemma readNat_2:
  "a < 10 \<Longrightarrow> b < 10 \<Longrightarrow> readNat [digitChar a, digitChar b] = Some (10 * a + b)"
  by (simp add: readNat_def digitChar_isDigit digitVal_digitChar)

lemma readNat_4:
  "a < 10 \<Longrightarrow> b < 10 \<Longrightarrow> c < 10 \<Longrightarrow> d < 10 \<Longrightarrow>
   readNat [digitChar a, digitChar b, digitChar c, digitChar d] =
     Some (1000 * a + 100 * b + 10 * c + d)"
  by (simp add: readNat_def digitChar_isDigit digitVal_digitChar)

lemma digits_2:
  fixes n :: nat
  assumes "n < 100"
  shows "n div 10 < 10" "n mod 10 < 10" "10 * (n div 10) + n mod 10 = n"
  using assms by simp_all

lemma digits_4:
  fixes n :: nat
  assumes "n < 10000"
  shows "n div 1000 < 10" "n div 100 mod 10 < 10" "n div 10 mod 10 < 10" "n mod 10 < 10"
    "1000 * (n div 1000) + 100 * (n div 100 mod 10) + 10 * (n div 10 mod 10) + n mod 10 = n"
proof -
  show "n div 1000 < 10" using assms by simp
  show "n div 100 mod 10 < 10" "n div 10 mod 10 < 10" "n mod 10 < 10" by simp_all
  have a: "n = 10 * (n div 10) + n mod 10" by simp
  have "n div 10 = 10 * (n div 10 div 10) + n div 10 mod 10" by simp
  then have b: "n div 10 = 10 * (n div 100) + n div 10 mod 10"
    by (simp add: div_mult2_eq[symmetric])
  have "n div 100 = 10 * (n div 100 div 10) + n div 100 mod 10" by simp
  then have c: "n div 100 = 10 * (n div 1000) + n div 100 mod 10"
    by (simp add: div_mult2_eq[symmetric])
  show "1000 * (n div 1000) + 100 * (n div 100 mod 10) + 10 * (n div 10 mod 10) + n mod 10 = n"
    using a b c by linarith
qed

lemma daysInMonth_le_31: "daysInMonth y m \<le> 31"
  by (simp add: daysInMonth_def)

text \<open>
  A date printed by \<^verbatim>\<open>format\<close> is read back by \<^verbatim>\<open>new Date\<close> as midnight UTC of
  the same day, for the days from 0001-01-01 to 9999-12-31.
\<close>

lemma newDate_formatDay:
  assumes "- 719162 \<le> z" "z \<le> 2932896"
  shows "newDate e (formatDay z) = Some (z * msPerDay)"
proof -
  obtain y m d where c: "civilFromDays z = (y, m, d)" by (cases "civilFromDays z") auto
  from civilFromDays_correct[OF c] have v: "1 \<le> m" "m \<le> 12" "1 \<le> d" "d \<le> daysInMonth y m"
    and rt: "daysFromCivil y m d = z"
    by simp_all
  from civilFromDays_year[OF c assms] have yr: "1 \<le> y" "y \<le> 9999" by simp_all
  have d31: "d \<le> 31" using v(4) daysInMonth_le_31[of y m] by linarith
  define Y M D where "Y = nat y" and "M = nat m" and "D = nat d"
  have n: "Y < 10000" "M < 100" "D < 100" "int Y = y" "int M = m" "int D = d"
    using yr v d31 by (simp_all add: Y_def M_def D_def)
  have f: "formatDay z =
     [digitChar (Y div 1000), digitChar (Y div 100 mod 10), digitChar (Y div 10 mod 10),
      digitChar (Y mod 10), CHR ''-'', digitChar (M div 10), digitChar (M mod 10),
      CHR ''-'', digitChar (D div 10), digitChar (D mod 10)]"
    unfolding Y_def M_def D_def using yr v d31 by (intro formatDay_civil[OF c]) simp_all
  have rY: "readNat [digitChar (Y div 1000), digitChar (Y div 100 mod 10),
      digitChar (Y div 10 mod 10), digitChar (Y mod 10)] = Some Y"
    using digits_4[OF n(1)] by (simp add: readNat_4)
  have rM: "readNat [digitChar (M div 10), digitChar (M mod 10)] = Some M"
    using digits_2[OF n(2)] by (simp add: readNat_2)
  have rD: "readNat [digitChar (D div 10), digitChar (D mod 10)] = Some D"
    using digits_2[OF n(3)] by (simp add: readNat_2)
  have ok: "1 \<le> M" "M \<le> 12" "1 \<le> D" "int D \<le> daysInMonth (int Y) (int M)"
    using v by (simp_all add: n M_def D_def)
  have tc: "timeClip (z * msPerDay) = Some (z * msPerDay)"
    using assms by (intro timeClip_Some) (simp_all add: msPerDay_def maxTime_def)
  show ?thesis
    unfolding f newDate_def isoDate_def using ok v
    by (simp add: rY rM rD n rt tc)
qed

subsection \<open>The due date after a run\<close>

text \<open>The day the loop stops at is after today, by at most one step.\<close>

lemma dueCount_stop:
  assumes "isFrequency f" "localDay e c \<le> localDay e (now e)"
  shows "localDay e (now e) < localDay e c + int (dueCount e f c) * stepDays f"
    and "localDay e c + int (dueCount e f c) * stepDays f \<le> localDay e (now e) + stepDays f"
proof -
  let ?s = "stepDays f" and ?t = "localDay e (now e)" and ?d = "localDay e c"
  have s: "0 < ?s" using assms(1) by (rule stepDays_pos)
  have q: "0 \<le> (?t - ?d) div ?s" using assms(2) s by (simp add: pos_imp_zdiv_nonneg_iff)
  have m: "int (dueCount e f c) = (?t - ?d) div ?s + 1"
    using assms(2) q by (simp add: dueCount_def)
  have b: "?s * ((?t - ?d) div ?s) \<le> ?t - ?d" "?t - ?d < ?s * ((?t - ?d) div ?s) + ?s"
    using int_div_bounds[OF s, of "?t - ?d"] by simp_all
  have e: "int (dueCount e f c) * ?s = ?s * ((?t - ?d) div ?s) + ?s"
    unfolding m by (simp add: algebra_simps)
  show "?t < ?d + int (dueCount e f c) * ?s" unfolding e using b(2) by linarith
  show "?d + int (dueCount e f c) * ?s \<le> ?t + ?s" unfolding e using b(1) by linarith
qed

text \<open>
  On or east of Greenwich, and between the years 1 and 9998, a rule that the
  callback has returned is not due any more: a further call at the same
  instant passes over it.
\<close>

lemma processRule_settled:
  assumes tz: "0 \<le> tzOffset e" "tzOffset e < 1440"
    and range: "- 719162 \<le> localDay e (now e)" "localDay e (now e) + 365 \<le> 2932896"
    and run: "processRule e st rule = Some (rule', st')"
  shows "processRule e st2 rule' = Some (rule', st2)"
proof -
  obtain ne h k where st: "st = (ne, h, k)" by (cases st) auto
  obtain ne2 h2 k2 where st2: "st2 = (ne2, h2, k2)" by (cases st2) auto
  show ?thesis
  proof (cases "active rule \<and> due e (newDate e (nextDueDate rule))")
    case False
    then have "processRule e st rule = Some (rule, st)"
      unfolding st using processRule_inactive[of rule e ne h k] processRule_not_due[of e rule ne h k]
      by auto
    with run have "rule' = rule" by simp
    with False show ?thesis
      unfolding st2 using processRule_inactive[of rule e ne2 h2 k2]
        processRule_not_due[of e rule ne2 h2 k2]
      by auto
  next
    case True
    then obtain c where c: "newDate e (nextDueDate rule) = Some c"
      using due_None by (cases "newDate e (nextDueDate rule)") auto
    with True have dd: "localDay e c \<le> localDay e (now e)" by (simp add: due_Some)
    have fr: "isFrequency (frequency rule)"
    proof (rule ccontr)
      assume "\<not> isFrequency (frequency rule)"
      with True have "processRule e st rule = None" by (intro processRule_stuck) simp_all
      with run show False by simp
    qed
    define D where "D = localDay e c
      + int (dueCount e (frequency rule) c) * stepDays (frequency rule)"
    have clk: "now e + 366 * msPerDay \<le> maxTime"
      using tz(1) range(2) by (intro clock_of_day) simp_all
    from run have r': "rule' = rule\<lparr>nextDueDate := formatDay D,
        lastRun := Some (formatDay (localDay e (now e)))\<rparr>"
      unfolding st D_def using processRule_due[OF fr _ c dd clk, of ne h k] True by simp
    from dueCount_stop[OF fr dd] stepDays_le_365[of "frequency rule"]
    have D: "localDay e (now e) < D" "D \<le> localDay e (now e) + 365"
      unfolding D_def by linarith+
    have "newDate e (formatDay D) = Some (D * msPerDay)"
      using D range by (intro newDate_formatDay) linarith+
    moreover have "localDay e (D * msPerDay) = D"
      using tz by (rule localDay_midnight_east)
    ultimately have "\<not> due e (newDate e (nextDueDate rule'))"
      using D(1) by (simp add: r' due_Some)
    then show ?thesis unfolding st2 by (rule processRule_not_due)
  qed
qed

lemma mapRules_settled:
  assumes "\<And>r st. r \<in> set rs \<Longrightarrow> processRule e st r = Some (r, st)"
  shows "mapRules e rs st = Some (rs, st)"
  using assms by (induction rs arbitrary: st) simp_all

lemma mapRules_results_settled:
  assumes tz: "0 \<le> tzOffset e" "tzOffset e < 1440"
    and range: "- 719162 \<le> localDay e (now e)" "localDay e (now e) + 365 \<le> 2932896"
    and run: "mapRules e rs st = Some (rs', st')"
  shows "\<forall>r\<in>set rs'. \<forall>st2. processRule e st2 r = Some (r, st2)"
  using run
proof (induction rs arbitrary: st rs' st')
  case Nil
  then show ?case by simp
next
  case (Cons r rs)
  from Cons.prems obtain r1 st1 rs1 where
    p: "processRule e st r = Some (r1, st1)" and
    m: "mapRules e rs st1 = Some (rs1, st')" and
    r: "rs' = r1 # rs1"
    by (auto split: option.splits)
  from processRule_settled[OF tz range p] Cons.IH[OF m] show ?case
    unfolding r by simp
qed

section \<open>The claims\<close>

text \<open>
  C1 (the code departs from the claim). Idempotence: a second run at the
  same instant on the rules the first run returned generates nothing. West
  of Greenwich the code breaks this. \<^verbatim>\<open>new Date('2024-06-04')\<close> is midnight
  UTC, which five hours west is 19:00 of 3 June, and \<^verbatim>\<open>format\<close> and
  \<^verbatim>\<open>isToday\<close> work on local dates: at noon of 3 June the first run of the
  daily rule due on 2024-06-01 generates four expenses and sets the due date
  to 2024-06-04, and the second run reads that date as today and generates
  one more expense, dated 2024-06-03 again.
\<close>

theorem second_run_west_of_greenwich:
  "\<exists>res. materialize (envAt (- 300) (utc 2024 6 3 17)) [foodRule ''daily'' ''2024-06-01''] = Some res \<and>
     generatedCount res = 4 \<and>
     map nextDueDate (updatedRules res) = [''2024-06-04''] \<and>
     (\<exists>res'. materialize (envAt (- 300) (utc 2024 6 3 17)) (updatedRules res) = Some res' \<and>
        generatedCount res' = 1 \<and>
        map date (newTransactions res') = [''2024-06-03''] \<and>
        map nextDueDate (updatedRules res') = [''2024-06-04''])"
proof -
  let ?e = "envAt (- 300) (utc 2024 6 3 17)"
  let ?r = "foodRule ''daily'' ''2024-06-01''"
  let ?r' = "?r\<lparr>nextDueDate := ''2024-06-04'', lastRun := Some ''2024-06-03''\<rparr>"
  have 1: "isFrequency (frequency ?r)" "active ?r" "newDate ?e (nextDueDate ?r) = Some (19875 * msPerDay)"
    by (simp_all add: foodRule_fields isFrequency_examples newDate_examples)
  have 2: "localDay ?e (19875 * msPerDay) \<le> localDay ?e (now ?e)"
    by (simp add: envAt_fields localDay_west_examples)
  have 3: "dueCount ?e (frequency ?r) (19875 * msPerDay) = 4"
    by (simp add: dueCount_def foodRule_fields envAt_fields localDay_west_examples stepDays_examples)
  have first: "materialize ?e [?r] =
      Some \<lparr>newTransactions = occurrences ?e ?r (19875 * msPerDay) 0 4, updatedRules = [?r'],
            generatedCount = 4\<rparr>"
    unfolding materialize_single_due[OF 1 2 clock_examples(2)] 3
    by (simp add: envAt_fields localDay_west_examples formatDay_examples foodRule_fields
        stepDays_examples)
  have 4: "isFrequency (frequency ?r')" "active ?r'" "newDate ?e (nextDueDate ?r') = Some (19878 * msPerDay)"
    by (simp_all add: foodRule_fields isFrequency_examples newDate_examples)
  have 5: "localDay ?e (19878 * msPerDay) \<le> localDay ?e (now ?e)"
    by (simp add: envAt_fields localDay_west_examples)
  have 6: "dueCount ?e (frequency ?r') (19878 * msPerDay) = 1"
    by (simp add: dueCount_def foodRule_fields envAt_fields localDay_west_examples stepDays_examples)
  have second: "materialize ?e [?r'] =
      Some \<lparr>newTransactions = occurrences ?e ?r' (19878 * msPerDay) 0 1, updatedRules = [?r'],
            generatedCount = 1\<rparr>"
    unfolding materialize_single_due[OF 4 5 clock_examples(2)] 6
    by (simp add: envAt_fields localDay_west_examples formatDay_examples foodRule_fields
        stepDays_examples)
  show ?thesis
    unfolding first
    by (simp add: second occurrences_def upt_examples newExpense_fields localDay_west_examples
        formatDay_examples)
qed

text \<open>
  C2 (corrected). The scenario: the daily rule due on 2024-06-01, run on
  2024-06-03. The claim expects two expenses and the due date 2024-06-03.
  The loop also runs for the day of the run itself (\<^verbatim>\<open>isToday\<close>), so on the
  meridian at noon the run generates three expenses, the third dated
  2024-06-03, and the due date becomes 2024-06-04.
\<close>

theorem scenario_on_the_meridian:
  "\<exists>res. materialize (envAt 0 (utc 2024 6 3 12)) [foodRule ''daily'' ''2024-06-01''] = Some res \<and>
     generatedCount res = 3 \<and> generatedCount res \<noteq> 2 \<and>
     map date (newTransactions res) = [''2024-06-01'', ''2024-06-02'', ''2024-06-03''] \<and>
     map nextDueDate (updatedRules res) = [''2024-06-04'']"
  by (simp add: run_utc_daily newExpense_fields)

text \<open>
  C2 as amended: wherever local time is on or east of Greenwich (an offset
  from 0 up to, not including, 24 hours), at any time of the local day
  2024-06-03, an active daily rule due on 2024-06-01 yields exactly three
  expenses, dated 2024-06-01, 2024-06-02 and 2024-06-03, and comes back with
  the due date 2024-06-04 and the last run 2024-06-03.
\<close>

theorem scenario_east_of_greenwich:
  assumes "0 \<le> tzOffset e" "tzOffset e < 1440"
    and "localDay e (now e) = daysFromCivil 2024 6 3"
    and "frequency rule = ''daily''" "nextDueDate rule = ''2024-06-01''" "active rule"
  shows "\<exists>res. materialize e [rule] = Some res \<and>
     generatedCount res = 3 \<and>
     map date (newTransactions res) = [''2024-06-01'', ''2024-06-02'', ''2024-06-03''] \<and>
     updatedRules res = [rule\<lparr>nextDueDate := ''2024-06-04'', lastRun := Some ''2024-06-03''\<rparr>]"
proof -
  have d: "localDay e (19875 * msPerDay) = 19875"
    using assms(1,2) by (rule localDay_midnight_east)
  have t: "localDay e (now e) = 19877"
    using assms(3) by (simp add: daysFromCivil_examples)
  have 1: "isFrequency (frequency rule)" "active rule"
    "newDate e (nextDueDate rule) = Some (19875 * msPerDay)"
    using assms(4-6) by (simp_all add: isFrequency_examples newDate_examples)
  have 2: "localDay e (19875 * msPerDay) \<le> localDay e (now e)"
    by (simp add: d t)
  have 3: "dueCount e (frequency rule) (19875 * msPerDay) = 3"
    by (simp add: dueCount_def d t assms(4) stepDays_examples)
  have clk: "now e + 366 * msPerDay \<le> maxTime"
    using assms(1) t by (intro clock_of_day) simp_all
  show ?thesis
    unfolding materialize_single_due[OF 1 2 clk] 3
    by (simp add: d t formatDay_examples occurrences_def upt_examples newExpense_fields
        assms(4) stepDays_examples)
qed

theorem scenario_east_of_greenwich_witness:
  "0 \<le> tzOffset (envAt 330 (utc 2024 6 3 2)) \<and> tzOffset (envAt 330 (utc 2024 6 3 2)) < 1440 \<and>
   localDay (envAt 330 (utc 2024 6 3 2)) (now (envAt 330 (utc 2024 6 3 2))) = daysFromCivil 2024 6 3 \<and>
   frequency (foodRule ''daily'' ''2024-06-01'') = ''daily'' \<and>
   nextDueDate (foodRule ''daily'' ''2024-06-01'') = ''2024-06-01'' \<and>
   active (foodRule ''daily'' ''2024-06-01'') \<and>
   (\<exists>res. materialize (envAt 330 (utc 2024 6 3 2)) [foodRule ''daily'' ''2024-06-01''] = Some res \<and>
      generatedCount res = 3 \<and>
      map date (newTransactions res) = [''2024-06-01'', ''2024-06-02'', ''2024-06-03''] \<and>
      updatedRules res = [(foodRule ''daily'' ''2024-06-01'')
                            \<lparr>nextDueDate := ''2024-06-04'', lastRun := Some ''2024-06-03''\<rparr>])"
proof -
  have h: "0 \<le> tzOffset (envAt 330 (utc 2024 6 3 2))" "tzOffset (envAt 330 (utc 2024 6 3 2)) < 1440"
    "localDay (envAt 330 (utc 2024 6 3 2)) (now (envAt 330 (utc 2024 6 3 2))) = daysFromCivil 2024 6 3"
    "frequency (foodRule ''daily'' ''2024-06-01'') = ''daily''"
    "nextDueDate (foodRule ''daily'' ''2024-06-01'') = ''2024-06-01''"
    "active (foodRule ''daily'' ''2024-06-01'')"
    by (simp_all add: envAt_fields foodRule_fields localDay_utc_examples daysFromCivil_examples)
  from scenario_east_of_greenwich[OF h] h show ?thesis by blast
qed

text \<open>
  C5 (the code departs from the claim). A rule due on the day of the run
  generates an expense dated that day. Five hours west of Greenwich, at noon
  of 2024-06-03, the weekly rule due on 2024-06-03 generates one expense
  dated 2024-06-02, none dated 2024-06-03, and its due date becomes
  2024-06-09: the dates are one day early.
\<close>

theorem due_today_west_of_greenwich:
  "format_yyyy_MM_dd (envAt (- 300) (utc 2024 6 3 17)) (Some (utc 2024 6 3 17)) = Some ''2024-06-03'' \<and>
   (\<exists>res. materialize (envAt (- 300) (utc 2024 6 3 17)) [foodRule ''weekly'' ''2024-06-03''] = Some res \<and>
      map date (newTransactions res) = [''2024-06-02''] \<and>
      map nextDueDate (updatedRules res) = [''2024-06-09''])"
proof -
  let ?e = "envAt (- 300) (utc 2024 6 3 17)"
  let ?r = "foodRule ''weekly'' ''2024-06-03''"
  have 1: "isFrequency (frequency ?r)" "active ?r" "newDate ?e (nextDueDate ?r) = Some (19877 * msPerDay)"
    by (simp_all add: foodRule_fields isFrequency_examples newDate_examples)
  have 2: "localDay ?e (19877 * msPerDay) \<le> localDay ?e (now ?e)"
    by (simp add: envAt_fields localDay_west_examples)
  have 3: "dueCount ?e (frequency ?r) (19877 * msPerDay) = 1"
    by (simp add: dueCount_def foodRule_fields envAt_fields localDay_west_examples stepDays_examples)
  show ?thesis
    unfolding materialize_single_due[OF 1 2 clock_examples(2)] 3
    by (simp add: format_yyyy_MM_dd_def envAt_fields localDay_west_examples formatDay_examples
        occurrences_def upt_examples newExpense_fields foodRule_fields stepDays_examples)
qed

text \<open>
  C6 (the code departs from the claim). The steps are fixed, 30 days for a
  month and 365 for a year (\<open>calculateNextDate_Some\<close>, \<open>stepDays\<close>), but the
  dates of the example hold only east of Greenwich. Five hours west, at noon
  of 2024-03-01, the monthly rule due on 2024-01-31 generates expenses dated
  2024-01-30 and 2024-02-29, the date the claim excludes, and none dated
  2024-01-31 or 2024-03-01.
\<close>

theorem monthly_drift_west_of_greenwich:
  "\<exists>res. materialize (envAt (- 300) (utc 2024 3 1 17)) [foodRule ''monthly'' ''2024-01-31''] = Some res \<and>
     map date (newTransactions res) = [''2024-01-30'', ''2024-02-29''] \<and>
     map nextDueDate (updatedRules res) = [''2024-03-30'']"
proof -
  let ?e = "envAt (- 300) (utc 2024 3 1 17)"
  let ?r = "foodRule ''monthly'' ''2024-01-31''"
  have 1: "isFrequency (frequency ?r)" "active ?r" "newDate ?e (nextDueDate ?r) = Some (19753 * msPerDay)"
    by (simp_all add: foodRule_fields isFrequency_examples newDate_examples)
  have 2: "localDay ?e (19753 * msPerDay) \<le> localDay ?e (now ?e)"
    by (simp add: envAt_fields localDay_west_examples)
  have 3: "dueCount ?e (frequency ?r) (19753 * msPerDay) = 2"
    by (simp add: dueCount_def foodRule_fields envAt_fields localDay_west_examples stepDays_examples)
  show ?thesis
    unfolding materialize_single_due[OF 1 2 clock_examples(4)] 3
    by (simp add: envAt_fields localDay_west_examples formatDay_examples
        occurrences_def upt_examples newExpense_fields foodRule_fields stepDays_examples)
qed

text \<open>
  C9 (the code departs from the claim). The expenses of a rule are dated
  from its old due date up to, not including, its new one. Five hours west
  of Greenwich, at noon of 2024-06-03, the daily rule due on 2024-06-03
  generates expenses dated 2024-06-02 and 2024-06-03: the first lies before
  the old due date. The new due date is 2024-06-04 and the last run
  2024-06-03.
\<close>

theorem cursor_range_west_of_greenwich:
  "\<exists>res. materialize (envAt (- 300) (utc 2024 6 3 17)) [foodRule ''daily'' ''2024-06-03''] = Some res \<and>
     map date (newTransactions res) = [''2024-06-02'', ''2024-06-03''] \<and>
     map nextDueDate (updatedRules res) = [''2024-06-04''] \<and>
     map lastRun (updatedRules res) = [Some ''2024-06-03'']"
proof -
  let ?e = "envAt (- 300) (utc 2024 6 3 17)"
  let ?r = "foodRule ''daily'' ''2024-06-03''"
  have 1: "isFrequency (frequency ?r)" "active ?r" "newDate ?e (nextDueDate ?r) = Some (19877 * msPerDay)"
    by (simp_all add: foodRule_fields isFrequency_examples newDate_examples)
  have 2: "localDay ?e (19877 * msPerDay) \<le> localDay ?e (now ?e)"
    by (simp add: envAt_fields localDay_west_examples)
  have 3: "dueCount ?e (frequency ?r) (19877 * msPerDay) = 2"
    by (simp add: dueCount_def foodRule_fields envAt_fields localDay_west_examples stepDays_examples)
  show ?thesis
    unfolding materialize_single_due[OF 1 2 clock_examples(2)] 3
    by (simp add: envAt_fields localDay_west_examples formatDay_examples
        occurrences_def upt_examples newExpense_fields foodRule_fields stepDays_examples)
qed

text \<open>
  C7 (confirmed). An inactive rule is frozen: whatever its due date, the
  callback returns it as it is, adds no expense, draws no id and leaves
  \<^verbatim>\<open>hasUpdates\<close> alone; and a run on a rule set that holds it is the run on
  the other rules, with the rule put back unchanged in its place.
\<close>

theorem inactive_rule_frozen:
  assumes "\<not> active rule"
  shows "processRule e (newExpenses, hasUpdates, k) rule = Some (rule, (newExpenses, hasUpdates, k)) \<and>
         materialize e (xs @ rule # ys) =
           map_option (withRuleAt (length xs) rule) (materialize e (xs @ ys))"
proof
  show "processRule e (newExpenses, hasUpdates, k) rule = Some (rule, (newExpenses, hasUpdates, k))"
    using assms by (rule processRule_inactive)
  have "\<And>st. processRule e st rule = Some (rule, st)"
    using assms processRule_inactive[of rule e] by (metis prod_cases3)
  then show "materialize e (xs @ rule # ys) =
      map_option (withRuleAt (length xs) rule) (materialize e (xs @ ys))"
    by (rule materialize_skip)
qed

theorem inactive_rule_frozen_witness:
  "\<not> active ((foodRule ''daily'' ''2000-01-01'')\<lparr>active := False\<rparr>) \<and>
   processRule (envAt 0 (utc 2024 6 3 12)) ([], False, 0)
       ((foodRule ''daily'' ''2000-01-01'')\<lparr>active := False\<rparr>) =
     Some ((foodRule ''daily'' ''2000-01-01'')\<lparr>active := False\<rparr>, ([], False, 0)) \<and>
   materialize (envAt 0 (utc 2024 6 3 12)) [(foodRule ''daily'' ''2000-01-01'')\<lparr>active := False\<rparr>] =
     Some \<lparr>newTransactions = [],
           updatedRules = [(foodRule ''daily'' ''2000-01-01'')\<lparr>active := False\<rparr>],
           generatedCount = 0\<rparr>"
proof -
  have h: "\<not> active ((foodRule ''daily'' ''2000-01-01'')\<lparr>active := False\<rparr>)" by simp
  have m: "materialize (envAt 0 (utc 2024 6 3 12)) [] =
      Some \<lparr>newTransactions = [], updatedRules = [], generatedCount = 0\<rparr>"
    by (simp add: materialize_def)
  from inactive_rule_frozen[OF h, of "envAt 0 (utc 2024 6 3 12)" "[]" False 0 "[]" "[]"] h
  show ?thesis by (simp add: m withRuleAt_def)
qed

text \<open>
  C10 (confirmed). A run that returns gives back as many rules as it got,
  in the same order, each with its id, frequency, active flag and template:
  the rule at a position is the rule that was there, with at most the due
  date and the last run replaced. A run on rules whose frequencies are all of
  the type \<^verbatim>\<open>Frequency\<close> returns, as long as the clock is more than 366
  days before the end of the range of time values, which lies in the year
  275760.
\<close>

theorem rule_set_preserved:
  "(materialize e rules = Some res \<longrightarrow>
      length (updatedRules res) = length rules \<and>
      (\<forall>i<length rules.
         RecurringRule.id' (updatedRules res ! i) = RecurringRule.id' (rules ! i) \<and>
         frequency (updatedRules res ! i) = frequency (rules ! i) \<and>
         active (updatedRules res ! i) = active (rules ! i) \<and>
         expenseTemplate (updatedRules res ! i) = expenseTemplate (rules ! i) \<and>
         updatedRules res ! i =
           (rules ! i)\<lparr>nextDueDate := nextDueDate (updatedRules res ! i),
                       lastRun := lastRun (updatedRules res ! i)\<rparr>)) \<and>
   ((\<forall>r\<in>set rules. isFrequency (frequency r)) \<and> now e + 366 * msPerDay \<le> maxTime \<longrightarrow>
      materialize e rules \<noteq> None)"
proof (intro conjI impI)
  assume m: "materialize e rules = Some res"
  then obtain ne h k where
    mr: "mapRules e rules ([], False, 0) = Some (updatedRules res, (ne, h, k))"
    by (auto simp: materialize_def split: option.splits)
  from mapRules_result[OF mr]
  have l: "list_all2 (\<lambda>r r'. r' = r\<lparr>nextDueDate := nextDueDate r', lastRun := lastRun r'\<rparr>)
             rules (updatedRules res)"
    by blast
  then show len: "length (updatedRules res) = length rules"
    by (simp add: list_all2_lengthD)
  show "\<forall>i<length rules.
         RecurringRule.id' (updatedRules res ! i) = RecurringRule.id' (rules ! i) \<and>
         frequency (updatedRules res ! i) = frequency (rules ! i) \<and>
         active (updatedRules res ! i) = active (rules ! i) \<and>
         expenseTemplate (updatedRules res ! i) = expenseTemplate (rules ! i) \<and>
         updatedRules res ! i =
           (rules ! i)\<lparr>nextDueDate := nextDueDate (updatedRules res ! i),
                       lastRun := lastRun (updatedRules res ! i)\<rparr>"
  proof (intro allI impI)
    fix i assume "i < length rules"
    with l have eq: "updatedRules res ! i =
        (rules ! i)\<lparr>nextDueDate := nextDueDate (updatedRules res ! i),
                    lastRun := lastRun (updatedRules res ! i)\<rparr>"
      by (simp add: list_all2_conv_all_nth)
    have "RecurringRule.id' (updatedRules res ! i) = RecurringRule.id' (rules ! i)"
      "frequency (updatedRules res ! i) = frequency (rules ! i)"
      "active (updatedRules res ! i) = active (rules ! i)"
      "expenseTemplate (updatedRules res ! i) = expenseTemplate (rules ! i)"
      by (subst eq, simp)+
    with eq show "RecurringRule.id' (updatedRules res ! i) = RecurringRule.id' (rules ! i) \<and>
         frequency (updatedRules res ! i) = frequency (rules ! i) \<and>
         active (updatedRules res ! i) = active (rules ! i) \<and>
         expenseTemplate (updatedRules res ! i) = expenseTemplate (rules ! i) \<and>
         updatedRules res ! i =
           (rules ! i)\<lparr>nextDueDate := nextDueDate (updatedRules res ! i),
                       lastRun := lastRun (updatedRules res ! i)\<rparr>"
      by blast
  qed
next
  assume "(\<forall>r\<in>set rules. isFrequency (frequency r)) \<and> now e + 366 * msPerDay \<le> maxTime"
  then obtain y where "mapRules e rules ([], False, 0) = Some y"
    using mapRules_total[of e rules "([], False, 0)"] by blast
  then show "materialize e rules \<noteq> None"
    by (cases y) (auto simp: materialize_def)
qed

theorem rule_set_preserved_witness:
  "\<exists>res. materialize (envAt 0 (utc 2024 6 3 12)) [foodRule ''daily'' ''2024-06-01''] = Some res \<and>
     length (updatedRules res) = length [foodRule ''daily'' ''2024-06-01''] \<and>
     RecurringRule.id' (updatedRules res ! 0) = RecurringRule.id' ([foodRule ''daily'' ''2024-06-01''] ! 0) \<and>
     frequency (updatedRules res ! 0) = frequency ([foodRule ''daily'' ''2024-06-01''] ! 0) \<and>
     active (updatedRules res ! 0) = active ([foodRule ''daily'' ''2024-06-01''] ! 0) \<and>
     expenseTemplate (updatedRules res ! 0) = expenseTemplate ([foodRule ''daily'' ''2024-06-01''] ! 0) \<and>
     nextDueDate (updatedRules res ! 0) = ''2024-06-04'' \<and>
     isFrequency (frequency (foodRule ''daily'' ''2024-06-01'')) \<and>
     now (envAt 0 (utc 2024 6 3 12)) + 366 * msPerDay \<le> maxTime \<and>
     materialize (envAt 0 (utc 2024 6 3 12)) [foodRule ''daily'' ''2024-06-01''] \<noteq> None"
proof -
  let ?e = "envAt 0 (utc 2024 6 3 12)"
  let ?rs = "[foodRule ''daily'' ''2024-06-01'']"
  obtain res where m: "materialize ?e ?rs = Some res"
    and n: "nextDueDate (updatedRules res ! 0) = ''2024-06-04''"
    using run_utc_daily by simp
  have f: "\<forall>r\<in>set ?rs. isFrequency (frequency r)"
    by (simp add: foodRule_fields isFrequency_examples)
  note p = rule_set_preserved[of ?e ?rs res]
  have a: "length (updatedRules res) = length ?rs"
    using p m by blast
  have "0 < length ?rs" by simp
  with p m have b:
    "RecurringRule.id' (updatedRules res ! 0) = RecurringRule.id' (?rs ! 0)"
    "frequency (updatedRules res ! 0) = frequency (?rs ! 0)"
    "active (updatedRules res ! 0) = active (?rs ! 0)"
    "expenseTemplate (updatedRules res ! 0) = expenseTemplate (?rs ! 0)"
    by blast+
  have clk: "now ?e + 366 * msPerDay \<le> maxTime" by (rule clock_examples)
  have c: "materialize ?e ?rs \<noteq> None"
    using p f clk by blast
  have "isFrequency (frequency (foodRule ''daily'' ''2024-06-01''))"
    by (simp add: foodRule_fields isFrequency_examples)
  with m n a b c clk show ?thesis by blast
qed

text \<open>
  C3 (corrected). A malformed rule is passed over and the rest of the batch is
  processed. This holds for a due date that cannot be parsed. It fails for a
  frequency outside the four tags when the rule is active and due: no test
  of the loop moves \<^verbatim>\<open>nextDate\<close>, the loop never ends, and the run returns
  nothing, so the rules after it are not processed either.
\<close>

theorem unknown_frequency_never_returns:
  "materialize (envAt 0 (utc 2024 6 3 12))
     [foodRule ''hourly'' ''2024-06-01'', foodRule ''daily'' ''2024-06-01''] = None"
proof -
  let ?e = "envAt 0 (utc 2024 6 3 12)"
  have "due ?e (newDate ?e (nextDueDate (foodRule ''hourly'' ''2024-06-01'')))"
    by (simp add: foodRule_fields newDate_examples due_Some envAt_fields localDay_utc_examples)
  then have "processRule ?e ([], False, 0) (foodRule ''hourly'' ''2024-06-01'') = None"
    by (intro processRule_stuck) (simp_all add: foodRule_fields isFrequency_examples)
  then show ?thesis by (simp add: materialize_def)
qed

text \<open>
  C3 as amended: a rule whose due date cannot be parsed, and a rule with a
  frequency outside the four tags that is inactive or not yet due, is passed
  over. The callback returns it unchanged, adds no expense and draws no id;
  the run on a rule set that holds it is the run on the other rules with the
  rule put back in its place, so it returns exactly when that run returns,
  which it does when the other rules have frequencies of the type and the
  clock is more than 366 days before the end of the range of time values.
\<close>

theorem malformed_rule_skipped:
  assumes "newDate e (nextDueDate r) = None \<or>
           (\<not> isFrequency (frequency r) \<and> (\<not> active r \<or> \<not> due e (newDate e (nextDueDate r))))"
  shows "processRule e st r = Some (r, st) \<and>
         materialize e (xs @ r # ys) = map_option (withRuleAt (length xs) r) (materialize e (xs @ ys)) \<and>
         ((\<forall>x\<in>set (xs @ ys). isFrequency (frequency x)) \<and> now e + 366 * msPerDay \<le> maxTime \<longrightarrow>
            materialize e (xs @ r # ys) \<noteq> None)"
proof -
  have skip: "processRule e st r = Some (r, st)" for st
  proof -
    obtain ne h k where st: "st = (ne, h, k)" by (cases st) auto
    from assms consider "\<not> active r" | "\<not> due e (newDate e (nextDueDate r))"
      using due_None by auto
    then show ?thesis
      unfolding st by cases (simp_all add: processRule_inactive processRule_not_due)
  qed
  have m: "materialize e (xs @ r # ys) = map_option (withRuleAt (length xs) r) (materialize e (xs @ ys))"
    using skip by (rule materialize_skip)
  have "materialize e (xs @ r # ys) \<noteq> None"
    if "(\<forall>x\<in>set (xs @ ys). isFrequency (frequency x)) \<and> now e + 366 * msPerDay \<le> maxTime"
  proof -
    from that obtain y where "mapRules e (xs @ ys) ([], False, 0) = Some y"
      using mapRules_total[of e "xs @ ys" "([], False, 0)"] by blast
    then have "materialize e (xs @ ys) \<noteq> None"
      by (cases y) (auto simp: materialize_def)
    then show ?thesis by (simp add: m)
  qed
  with skip m show ?thesis by blast
qed

theorem malformed_rule_skipped_witness:
  "newDate (envAt 0 (utc 2024 6 3 12)) (nextDueDate (foodRule ''daily'' ''someday'')) = None \<and>
   processRule (envAt 0 (utc 2024 6 3 12)) ([], False, 0) (foodRule ''daily'' ''someday'') =
     Some (foodRule ''daily'' ''someday'', ([], False, 0)) \<and>
   materialize (envAt 0 (utc 2024 6 3 12))
       [foodRule ''daily'' ''someday'', foodRule ''daily'' ''2024-06-01''] =
     map_option (withRuleAt 0 (foodRule ''daily'' ''someday''))
       (materialize (envAt 0 (utc 2024 6 3 12)) [foodRule ''daily'' ''2024-06-01'']) \<and>
   isFrequency (frequency (foodRule ''daily'' ''2024-06-01'')) \<and>
   now (envAt 0 (utc 2024 6 3 12)) + 366 * msPerDay \<le> maxTime \<and>
   materialize (envAt 0 (utc 2024 6 3 12))
       [foodRule ''daily'' ''someday'', foodRule ''daily'' ''2024-06-01''] \<noteq> None"
proof -
  let ?e = "envAt 0 (utc 2024 6 3 12)"
  let ?bad = "foodRule ''daily'' ''someday''"
  let ?ok = "foodRule ''daily'' ''2024-06-01''"
  have h: "newDate ?e (nextDueDate ?bad) = None"
    by (simp add: foodRule_fields newDate_examples)
  have f: "isFrequency (frequency ?ok)"
    by (simp add: foodRule_fields isFrequency_examples)
  note p = malformed_rule_skipped[where r = ?bad and e = ?e and st = "([], False, 0)"
      and xs = "[]" and ys = "[?ok]", OF disjI1[OF h]]
  from p have a: "processRule ?e ([], False, 0) ?bad = Some (?bad, ([], False, 0))" by blast
  from p have b: "materialize ?e ([] @ ?bad # [?ok]) =
      map_option (withRuleAt (length ([]::RecurringRule list)) ?bad) (materialize ?e ([] @ [?ok]))"
    by blast
  have f': "\<forall>x\<in>set ([] @ [?ok]). isFrequency (frequency x)" using f by simp
  have clk: "now ?e + 366 * msPerDay \<le> maxTime" by (rule clock_examples)
  from p f' clk have c: "materialize ?e ([] @ ?bad # [?ok]) \<noteq> None" by blast
  from h a b c f clk show ?thesis by simp
qed

text \<open>
  C4 (corrected). The claim has the engine free of effects, with the caller
  saving the rules and showing the count. In the code
  \<^verbatim>\<open>processRecurringExpenses\<close> does both itself: on the meridian at noon of
  2024-06-03, with the daily rule due on 2024-06-01 in storage, the call
  replaces the stored rules and raises the toast.
\<close>

theorem engine_saves_rules_and_shows_toast:
  "\<exists>out s'.
     processRecurringExpenses (envAt 0 (utc 2024 6 3 12))
       \<lparr>recurringKey = [foodRule ''daily'' ''2024-06-01''], expenseKey = [], toast = None\<rparr> [] =
       Some (out, s') \<and>
     recurringKey s' \<noteq> [foodRule ''daily'' ''2024-06-01''] \<and>
     map nextDueDate (recurringKey s') = [''2024-06-04''] \<and>
     toast s' = Some ''3 recurring expenses added'' \<and>
     length out = 3"
proof -
  let ?e = "envAt 0 (utc 2024 6 3 12)"
  from run_utc_daily obtain ne k where
    "mapRules ?e [foodRule ''daily'' ''2024-06-01''] ([], False, 0) =
       Some ([(foodRule ''daily'' ''2024-06-01'')
                \<lparr>nextDueDate := ''2024-06-04'', lastRun := Some ''2024-06-03''\<rparr>], (ne, True, k))"
    "length ne = 3"
    by (auto simp: materialize_def processRule_def split: option.splits prod.splits if_splits)
  then show ?thesis
    by (simp add: processRecurringExpenses_def getRecurringRules_def saveRecurringRules_def
        showToastMessage_def showNat_examples foodRule_def)
qed

text \<open>
  C4 as amended: \<^verbatim>\<open>processRecurringExpenses\<close> is a function of the stored
  rules, the expenses passed in, the clock, the time zone and the ids drawn.
  It computes the run on the stored rules. When the run generates nothing
  the call leaves the state as it was and returns the expenses passed in.
  When it generates something the call itself saves the updated rules under
  the rules key, raises the toast with the count, and returns the new
  expenses followed by the expenses passed in. It never writes the expenses
  key: that is left to the caller.
\<close>

theorem processRecurringExpenses_effects:
  "processRecurringExpenses e s currentExpenses =
     (case materialize e (getRecurringRules s) of
        None \<Rightarrow> None
      | Some res \<Rightarrow>
          if generatedCount res = 0 then Some (currentExpenses, s)
          else Some (newTransactions res @ currentExpenses,
                     s\<lparr>recurringKey := updatedRules res,
                       toast := Some (showNat (generatedCount res) @ '' recurring expenses added'')\<rparr>))"
proof (cases "mapRules e (getRecurringRules s) ([], False, 0)")
  case None
  then show ?thesis by (simp add: processRecurringExpenses_def materialize_def)
next
  case (Some y)
  obtain us ne h k where y: "y = (us, (ne, h, k))" by (cases y) auto
  from mapRules_result[OF Some[unfolded y]] have "h \<longleftrightarrow> ne \<noteq> []" by auto
  then show ?thesis
    using Some
    by (auto simp: processRecurringExpenses_def materialize_def y saveRecurringRules_def
        showToastMessage_def)
qed

text \<open>
  C8 (corrected). The claim has the type of every generated expense equal to
  the type of the template. The code writes
  \<^verbatim>\<open>rule.expenseTemplate.type || 'expense'\<close>: a template that carries no type
  yields expenses of type \<^verbatim>\<open>expense\<close>.
\<close>

theorem missing_type_becomes_expense:
  "type (expenseTemplate ((foodRule ''daily'' ''2024-06-03'')
          \<lparr>expenseTemplate := foodTemplate\<lparr>type := None\<rparr>\<rparr>)) = None \<and>
   (\<exists>res. materialize (envAt 0 (utc 2024 6 3 12))
             [(foodRule ''daily'' ''2024-06-03'')
                \<lparr>expenseTemplate := foodTemplate\<lparr>type := None\<rparr>\<rparr>] = Some res \<and>
      map type (newTransactions res) = [Some ''expense''])"
proof -
  let ?e = "envAt 0 (utc 2024 6 3 12)"
  let ?r = "(foodRule ''daily'' ''2024-06-03'')\<lparr>expenseTemplate := foodTemplate\<lparr>type := None\<rparr>\<rparr>"
  have d: "localDay ?e (19877 * msPerDay) = 19877"
    by (rule localDay_midnight_east) (simp_all add: envAt_fields)
  have 1: "isFrequency (frequency ?r)" "active ?r" "newDate ?e (nextDueDate ?r) = Some (19877 * msPerDay)"
    by (simp_all add: foodRule_fields isFrequency_examples newDate_examples)
  have 2: "localDay ?e (19877 * msPerDay) \<le> localDay ?e (now ?e)"
    by (simp add: d envAt_fields localDay_utc_examples)
  have 3: "dueCount ?e (frequency ?r) (19877 * msPerDay) = 1"
    by (simp add: dueCount_def d foodRule_fields envAt_fields localDay_utc_examples stepDays_examples)
  show ?thesis
    unfolding materialize_single_due[OF 1 2 clock_examples(1)] 3
    by (simp add: occurrences_def upt_examples newExpense_fields orExpense_def)
qed

text \<open>
  C8 as amended: the expenses generated from a rule are those the callback
  appends to \<^verbatim>\<open>newExpenses\<close> when it is called on that rule; in a run they
  are the expenses that the run up to and including the rule has generated
  and the run up to the rule has not. Each of them has the amount, the
  category, the payment mode and the note of the template of that rule; its
  type is the template's type when the template carries one (as the type
  \<^verbatim>\<open>Expense\<close> requires) and \<^verbatim>\<open>expense\<close> when it carries none; and two
  expenses generated from the same rule differ in the id, the date and the
  creation time at most.
\<close>

theorem template_fidelity:
  "(processRule e (newExpenses, hasUpdates, k) rule = Some (rule', (newExpenses', hasUpdates', k')) \<longrightarrow>
      (\<exists>ruleUpdates. newExpenses' = newExpenses @ ruleUpdates \<and>
         (\<forall>x\<in>set ruleUpdates.
            amount x = amount (expenseTemplate rule) \<and>
            category x = category (expenseTemplate rule) \<and>
            paymentMode x = paymentMode (expenseTemplate rule) \<and>
            note' x = note' (expenseTemplate rule) \<and>
            type x = Some (orExpense (type (expenseTemplate rule))) \<and>
            (\<forall>s. type (expenseTemplate rule) = Some s \<and> s \<noteq> [] \<longrightarrow>
                 type x = type (expenseTemplate rule)) \<and>
            (\<forall>y\<in>set ruleUpdates.
               y = x\<lparr>Expense.id' := Expense.id' y, date := date y, createdAt := createdAt y\<rparr>)))) \<and>
   (materialize e (xs @ rule # ys) = Some res \<longrightarrow>
      (\<exists>before upto ruleUpdates later.
         materialize e xs = Some before \<and>
         materialize e (xs @ [rule]) = Some upto \<and>
         newTransactions upto = newTransactions before @ ruleUpdates \<and>
         newTransactions res = newTransactions before @ ruleUpdates @ later \<and>
         (\<forall>x\<in>set ruleUpdates.
            amount x = amount (expenseTemplate rule) \<and>
            category x = category (expenseTemplate rule) \<and>
            paymentMode x = paymentMode (expenseTemplate rule) \<and>
            note' x = note' (expenseTemplate rule) \<and>
            type x = Some (orExpense (type (expenseTemplate rule))) \<and>
            (\<forall>s. type (expenseTemplate rule) = Some s \<and> s \<noteq> [] \<longrightarrow>
                 type x = type (expenseTemplate rule)) \<and>
            (\<forall>y\<in>set ruleUpdates.
               y = x\<lparr>Expense.id' := Expense.id' y, date := date y, createdAt := createdAt y\<rparr>))))"
proof -
  let ?F = "\<lambda>us. \<forall>x\<in>set us.
            amount x = amount (expenseTemplate rule) \<and>
            category x = category (expenseTemplate rule) \<and>
            paymentMode x = paymentMode (expenseTemplate rule) \<and>
            note' x = note' (expenseTemplate rule) \<and>
            type x = Some (orExpense (type (expenseTemplate rule))) \<and>
            (\<forall>s. type (expenseTemplate rule) = Some s \<and> s \<noteq> [] \<longrightarrow>
                 type x = type (expenseTemplate rule)) \<and>
            (\<forall>y\<in>set us.
               y = x\<lparr>Expense.id' := Expense.id' y, date := date y, createdAt := createdAt y\<rparr>)"
  have fid: "?F us"
    if p: "processRule e (ne, h, j) rule = Some (r', (ne @ us, h', j'))" for ne h j r' us h' j'
  proof (intro ballI conjI allI impI)
    fix x assume x: "x \<in> set us"
    from processRule_result[OF p] have ent: "\<forall>x\<in>set us. \<exists>dt i. x = newExpense e rule dt i"
      by auto
    from ent x obtain dt i where xe: "x = newExpense e rule dt i" by blast
    show "amount x = amount (expenseTemplate rule)"
      "category x = category (expenseTemplate rule)"
      "paymentMode x = paymentMode (expenseTemplate rule)"
      "note' x = note' (expenseTemplate rule)"
      and t: "type x = Some (orExpense (type (expenseTemplate rule)))"
      unfolding xe by (simp_all add: newExpense_fields)
    show "type x = type (expenseTemplate rule)"
      if "type (expenseTemplate rule) = Some s \<and> s \<noteq> []" for s
      using t that by (simp add: orExpense_present)
    show "y = x\<lparr>Expense.id' := Expense.id' y, date := date y, createdAt := createdAt y\<rparr>"
      if "y \<in> set us" for y
    proof -
      from ent that obtain dt' i' where ye: "y = newExpense e rule dt' i'" by blast
      show ?thesis
        unfolding xe ye by (simp add: newExpense_def ExpenseTemplate.extend_def)
    qed
  qed
  show ?thesis
  proof (intro conjI impI)
    assume p: "processRule e (newExpenses, hasUpdates, k) rule = Some (rule', (newExpenses', hasUpdates', k'))"
    from processRule_result[OF p] obtain us where u: "newExpenses' = newExpenses @ us" by blast
    show "\<exists>ruleUpdates. newExpenses' = newExpenses @ ruleUpdates \<and> ?F ruleUpdates"
    proof (intro exI conjI)
      show "newExpenses' = newExpenses @ us" by (rule u)
      show "?F us" by (rule fid[OF p[unfolded u]])
    qed
  next
    assume m: "materialize e (xs @ rule # ys) = Some res"
    from materialize_split[OF m] obtain before upto us later h j r' h' j' where
      s: "materialize e xs = Some before" "materialize e (xs @ [rule]) = Some upto"
         "newTransactions upto = newTransactions before @ us"
         "newTransactions res = newTransactions before @ us @ later" and
      p: "processRule e (newTransactions before, h, j) rule =
            Some (r', (newTransactions before @ us, h', j'))"
      by blast
    show "\<exists>before upto ruleUpdates later.
         materialize e xs = Some before \<and>
         materialize e (xs @ [rule]) = Some upto \<and>
         newTransactions upto = newTransactions before @ ruleUpdates \<and>
         newTransactions res = newTransactions before @ ruleUpdates @ later \<and>
         ?F ruleUpdates"
    proof (intro exI conjI)
      show "materialize e xs = Some before" by (rule s(1))
      show "materialize e (xs @ [rule]) = Some upto" by (rule s(2))
      show "newTransactions upto = newTransactions before @ us" by (rule s(3))
      show "newTransactions res = newTransactions before @ us @ later" by (rule s(4))
      show "?F us" by (rule fid[OF p])
    qed
  qed
qed


theorem template_fidelity_witness:
  "\<exists>res before upto ruleUpdates later rule' ne.
     processRule (envAt 0 (utc 2024 6 3 12)) (ne, True, 3) (billsRule ''daily'' ''2024-06-03'') =
       Some (rule', (ne @ ruleUpdates, True, 4)) \<and>
     materialize (envAt 0 (utc 2024 6 3 12))
       ([foodRule ''daily'' ''2024-06-01''] @ billsRule ''daily'' ''2024-06-03'' # []) = Some res \<and>
     materialize (envAt 0 (utc 2024 6 3 12)) [foodRule ''daily'' ''2024-06-01''] = Some before \<and>
     materialize (envAt 0 (utc 2024 6 3 12))
       ([foodRule ''daily'' ''2024-06-01''] @ [billsRule ''daily'' ''2024-06-03'']) = Some upto \<and>
     newTransactions upto = newTransactions before @ ruleUpdates \<and>
     newTransactions res = newTransactions before @ ruleUpdates @ later \<and>
     map category (newTransactions before) = [''Food'', ''Food'', ''Food''] \<and>
     map date ruleUpdates = [''2024-06-03''] \<and>
     map amount ruleUpdates = [45] \<and>
     map category ruleUpdates = [''Bills''] \<and>
     map paymentMode ruleUpdates = [''Bank''] \<and>
     map note' ruleUpdates = [Some ''rent''] \<and>
     map type ruleUpdates = [Some ''expense'']"
proof -
  let ?e = "envAt 0 (utc 2024 6 3 12)"
  let ?food = "foodRule ''daily'' ''2024-06-01''"
  let ?bills = "billsRule ''daily'' ''2024-06-03''"
  let ?x = "newExpense ?e ?bills ''2024-06-03'' 3"
  obtain res where m: "materialize ?e ([?food] @ ?bills # []) = Some res"
    and rn: "drop 3 (newTransactions res) = [?x]"
    using run_utc_two by simp
  obtain before where b: "materialize ?e [?food] = Some before"
      "map category (newTransactions before) = [''Food'', ''Food'', ''Food'']"
      "length (newTransactions before) = 3"
    using run_utc_daily by (simp add: newExpense_fields foodRule_fields foodTemplate_def)
  have p: "processRule ?e (newTransactions before, True, 3) ?bills =
      Some (?bills\<lparr>nextDueDate := ''2024-06-04'', lastRun := Some ''2024-06-03''\<rparr>,
            (newTransactions before @ [?x], True, 4))"
    by (rule processRule_bills)
  note t = template_fidelity[where e = ?e and rule = ?bills and xs = "[?food]" and ys = "[]"
      and res = res and newExpenses = "newTransactions before" and hasUpdates = True and k = 3
      and rule' = "?bills\<lparr>nextDueDate := ''2024-06-04'', lastRun := Some ''2024-06-03''\<rparr>"
      and newExpenses' = "newTransactions before @ [?x]" and hasUpdates' = True and k' = 4]
  from t p obtain us where u: "newTransactions before @ [?x] = newTransactions before @ us"
    and fu: "\<forall>x\<in>set us.
            amount x = amount (expenseTemplate ?bills) \<and>
            category x = category (expenseTemplate ?bills) \<and>
            paymentMode x = paymentMode (expenseTemplate ?bills) \<and>
            note' x = note' (expenseTemplate ?bills) \<and>
            type x = Some (orExpense (type (expenseTemplate ?bills)))"
    by blast
  from u have us: "us = [?x]" by simp
  from t m obtain before' upto us' later where
    s: "materialize ?e [?food] = Some before'" "materialize ?e ([?food] @ [?bills]) = Some upto"
       "newTransactions upto = newTransactions before' @ us'"
       "newTransactions res = newTransactions before' @ us' @ later" and
    fu': "\<forall>x\<in>set us'.
            amount x = amount (expenseTemplate ?bills) \<and>
            category x = category (expenseTemplate ?bills) \<and>
            paymentMode x = paymentMode (expenseTemplate ?bills) \<and>
            note' x = note' (expenseTemplate ?bills) \<and>
            type x = Some (orExpense (type (expenseTemplate ?bills)))"
    by blast
  from s(1) b(1) have bb: "before' = before" by simp
  have "upto = res" using s(2) m by simp
  with s(3,4) have "later = []" by simp
  from s(4) bb rn b(3) have us': "us' = [?x]" using \<open>later = []\<close> by simp
  have f: "amount ?x = 45" "category ?x = ''Bills''" "paymentMode ?x = ''Bank''"
    "note' ?x = Some ''rent''" "type ?x = Some ''expense''" "date ?x = ''2024-06-03''"
    using fu' unfolding us'
    by (simp_all add: billsRule_fields billsTemplate_def orExpense_def newExpense_fields)
  show ?thesis
    apply (rule exI[of _ res], rule exI[of _ before], rule exI[of _ upto], rule exI[of _ "[?x]"],
        rule exI[of _ "[]"],
        rule exI[of _ "?bills\<lparr>nextDueDate := ''2024-06-04'', lastRun := Some ''2024-06-03''\<rparr>"],
        rule exI[of _ "newTransactions before"])
    using p m b s(2,3,4) bb us' f \<open>later = []\<close> by simp
qed

section \<open>Further properties\<close>

text \<open>
  Idempotence on or east of Greenwich. Where the offset of local time from
  UTC is not negative, and today lies between 0001-01-01 and 9998-12-31 (so
  that every due date is printed with a year of four digits), a second run
  at the same instant on the rules a first run returned generates nothing
  and returns these rules unchanged.
\<close>

theorem idempotent_east_of_greenwich:
  assumes "0 \<le> tzOffset e" "tzOffset e < 1440"
    and "- 719162 \<le> localDay e (now e)" "localDay e (now e) + 365 \<le> 2932896"
    and "materialize e rules = Some res"
  shows "materialize e (updatedRules res) =
           Some \<lparr>newTransactions = [], updatedRules = updatedRules res, generatedCount = 0\<rparr>"
proof -
  from assms(5) obtain ne h k where
    "mapRules e rules ([], False, 0) = Some (updatedRules res, (ne, h, k))"
    by (auto simp: materialize_def split: option.splits)
  from mapRules_results_settled[OF assms(1-4) this]
  have "\<And>r st. r \<in> set (updatedRules res) \<Longrightarrow> processRule e st r = Some (r, st)"
    by blast
  then have "mapRules e (updatedRules res) ([], False, 0) = Some (updatedRules res, ([], False, 0))"
    by (rule mapRules_settled)
  then show ?thesis by (simp add: materialize_def)
qed

theorem idempotent_east_of_greenwich_witness:
  "0 \<le> tzOffset (envAt 0 (utc 2024 6 3 12)) \<and> tzOffset (envAt 0 (utc 2024 6 3 12)) < 1440 \<and>
   - 719162 \<le> localDay (envAt 0 (utc 2024 6 3 12)) (now (envAt 0 (utc 2024 6 3 12))) \<and>
   localDay (envAt 0 (utc 2024 6 3 12)) (now (envAt 0 (utc 2024 6 3 12))) + 365 \<le> 2932896 \<and>
   (\<exists>res. materialize (envAt 0 (utc 2024 6 3 12)) [foodRule ''daily'' ''2024-06-01''] = Some res \<and>
      generatedCount res = 3 \<and>
      materialize (envAt 0 (utc 2024 6 3 12)) (updatedRules res) =
        Some \<lparr>newTransactions = [], updatedRules = updatedRules res, generatedCount = 0\<rparr>)"
proof -
  let ?e = "envAt 0 (utc 2024 6 3 12)"
  have h: "0 \<le> tzOffset ?e" "tzOffset ?e < 1440"
    "- 719162 \<le> localDay ?e (now ?e)" "localDay ?e (now ?e) + 365 \<le> 2932896"
    by (simp_all add: envAt_fields localDay_utc_examples)
  obtain res where m: "materialize ?e [foodRule ''daily'' ''2024-06-01''] = Some res"
    and n: "generatedCount res = 3"
    using run_utc_daily by simp
  from idempotent_east_of_greenwich[OF h m] h m n show ?thesis by blast
qed

text \<open>
  Backlog catch-up, in every time zone, for a clock more than 366 days
  before the end of the range of time values. The cursor of a rule is the
  local day of \<^verbatim>\<open>new Date(rule.nextDueDate)\<close>. For an active rule with a
  frequency of the type whose cursor is not after today the callback returns. It
  generates one expense for the cursor and one for every further step up to
  and including today, oldest first, the \<open>i\<close>-th dated \<open>i\<close> steps after the
  cursor and carrying the \<open>i\<close>-th id drawn; it sets the due date to the first
  day of the cadence after today and the last run to today.
\<close>

theorem backlog_catch_up:
  assumes "isFrequency (frequency rule)" "active rule"
    and "newDate e (nextDueDate rule) = Some c" "localDay e c \<le> localDay e (now e)"
    and "now e + 366 * msPerDay \<le> maxTime"
  shows "\<exists>rule' new.
     processRule e (newExpenses, hasUpdates, k) rule =
       Some (rule', (newExpenses @ new, True, k + length new)) \<and>
     int (length new) = (localDay e (now e) - localDay e c) div stepDays (frequency rule) + 1 \<and>
     (\<forall>i<length new.
        date (new ! i) = formatDay (localDay e c + int i * stepDays (frequency rule)) \<and>
        Expense.id' (new ! i) = uuidv4 e (k + i)) \<and>
     rule' = rule\<lparr>nextDueDate :=
                      formatDay (localDay e c + int (length new) * stepDays (frequency rule)),
                    lastRun := Some (formatDay (localDay e (now e)))\<rparr> \<and>
     localDay e (now e) < localDay e c + int (length new) * stepDays (frequency rule)"
proof -
  let ?m = "dueCount e (frequency rule) c"
  let ?new = "occurrences e rule c k ?m"
  have s: "0 < stepDays (frequency rule)" using assms(1) by (rule stepDays_pos)
  have len: "length ?new = ?m" by (rule occurrences_length)
  have cnt: "int ?m = (localDay e (now e) - localDay e c) div stepDays (frequency rule) + 1"
    using assms(4) s by (simp add: dueCount_def pos_imp_zdiv_nonneg_iff)
  have each: "\<forall>i<length ?new.
        date (?new ! i) = formatDay (localDay e c + int i * stepDays (frequency rule)) \<and>
        Expense.id' (?new ! i) = uuidv4 e (k + i)"
    by (simp add: occurrences_def newExpense_fields)
  have run: "processRule e (newExpenses, hasUpdates, k) rule =
      Some (rule\<lparr>nextDueDate := formatDay (localDay e c
                   + int (length ?new) * stepDays (frequency rule)),
                 lastRun := Some (formatDay (localDay e (now e)))\<rparr>,
            (newExpenses @ ?new, True, k + length ?new))"
    unfolding len by (rule processRule_due[OF assms])
  have stop: "localDay e (now e) < localDay e c + int (length ?new) * stepDays (frequency rule)"
    unfolding len by (rule dueCount_stop(1)[OF assms(1,4)])
  have cnt': "int (length ?new) = (localDay e (now e) - localDay e c) div stepDays (frequency rule) + 1"
    unfolding len by (rule cnt)
  from run cnt' each stop show ?thesis by blast
qed

theorem backlog_catch_up_witness:
  "isFrequency (frequency (foodRule ''daily'' ''2024-06-01'')) \<and> active (foodRule ''daily'' ''2024-06-01'') \<and>
   newDate (envAt 0 (utc 2024 6 3 12)) (nextDueDate (foodRule ''daily'' ''2024-06-01'')) =
     Some (19875 * msPerDay) \<and>
   localDay (envAt 0 (utc 2024 6 3 12)) (19875 * msPerDay)
     \<le> localDay (envAt 0 (utc 2024 6 3 12)) (now (envAt 0 (utc 2024 6 3 12))) \<and>
   now (envAt 0 (utc 2024 6 3 12)) + 366 * msPerDay \<le> maxTime \<and>
   (\<exists>rule' new.
      processRule (envAt 0 (utc 2024 6 3 12)) ([], False, 0) (foodRule ''daily'' ''2024-06-01'') =
        Some (rule', ([] @ new, True, 0 + length new)) \<and>
      int (length new) = 3 \<and> nextDueDate rule' = ''2024-06-04'')"
proof -
  let ?e = "envAt 0 (utc 2024 6 3 12)"
  let ?r = "foodRule ''daily'' ''2024-06-01''"
  have h: "isFrequency (frequency ?r)" "active ?r"
    "newDate ?e (nextDueDate ?r) = Some (19875 * msPerDay)"
    "localDay ?e (19875 * msPerDay) \<le> localDay ?e (now ?e)"
    "now ?e + 366 * msPerDay \<le> maxTime"
    by (simp_all add: foodRule_fields isFrequency_examples newDate_examples envAt_fields
        localDay_utc_examples clock_examples[unfolded envAt_fields])
  from backlog_catch_up[OF h, of "[]" False 0] obtain rule' new where
    p: "processRule ?e ([], False, 0) ?r = Some (rule', ([] @ new, True, 0 + length new))" and
    l: "int (length new) = (localDay ?e (now ?e) - localDay ?e (19875 * msPerDay))
          div stepDays (frequency ?r) + 1" and
    r: "rule' = ?r\<lparr>nextDueDate := formatDay (localDay ?e (19875 * msPerDay)
             + int (length new) * stepDays (frequency ?r)),
           lastRun := Some (formatDay (localDay ?e (now ?e)))\<rparr>"
    by blast
  from l have l3: "int (length new) = 3"
    by (simp add: envAt_fields localDay_utc_examples foodRule_fields stepDays_examples)
  have "nextDueDate rule' = ''2024-06-04''"
    unfolding r l3 by (simp add: localDay_utc_examples foodRule_fields stepDays_examples
        formatDay_examples)
  with h p l3 show ?thesis by blast
qed

lemma occurrences_dates:
  "map date (occurrences e rule c k n) =
     map (\<lambda>i. formatDay (localDay e c + int i * stepDays (frequency rule))) [0..<n]"
  by (simp add: occurrences_def newExpense_fields comp_def)

text \<open>A rule whose due date is a printed date, in a zone where midnight UTC of day \<open>d0\<close> is on local day \<open>c0\<close>.\<close>

lemma processRule_printed:
  assumes "isFrequency (frequency rule)" "active rule"
    and "- 719162 \<le> d0" "d0 \<le> 2932896" "nextDueDate rule = formatDay d0"
    and "localDay e (d0 * msPerDay) = c0" "c0 \<le> localDay e (now e)"
    and "now e + 366 * msPerDay \<le> maxTime"
  shows "\<exists>rule' new.
     processRule e (newExpenses, hasUpdates, k) rule =
       Some (rule', (newExpenses @ new, True, k + length new)) \<and>
     int (length new) = (localDay e (now e) - c0) div stepDays (frequency rule) + 1 \<and>
     map date new = map (\<lambda>i. formatDay (c0 + int i * stepDays (frequency rule))) [0..<length new] \<and>
     rule' = rule\<lparr>nextDueDate := formatDay (c0 + int (length new) * stepDays (frequency rule)),
                    lastRun := Some (formatDay (localDay e (now e)))\<rparr> \<and>
     localDay e (now e) < c0 + int (length new) * stepDays (frequency rule)"
proof -
  let ?c = "d0 * msPerDay"
  let ?m = "dueCount e (frequency rule) ?c"
  let ?new = "occurrences e rule ?c k ?m"
  have p: "newDate e (nextDueDate rule) = Some ?c"
    unfolding assms(5) using assms(3,4) by (rule newDate_formatDay)
  have dd: "localDay e ?c \<le> localDay e (now e)" using assms(6,7) by simp
  have s: "0 < stepDays (frequency rule)" using assms(1) by (rule stepDays_pos)
  have len: "length ?new = ?m" by (rule occurrences_length)
  have cnt: "int (length ?new) = (localDay e (now e) - c0) div stepDays (frequency rule) + 1"
    unfolding len using dd s by (simp add: dueCount_def pos_imp_zdiv_nonneg_iff assms(6))
  have dates: "map date ?new =
      map (\<lambda>i. formatDay (c0 + int i * stepDays (frequency rule))) [0..<length ?new]"
    unfolding len by (simp add: occurrences_dates assms(6))
  have run: "processRule e (newExpenses, hasUpdates, k) rule =
      Some (rule\<lparr>nextDueDate := formatDay (c0 + int (length ?new) * stepDays (frequency rule)),
                 lastRun := Some (formatDay (localDay e (now e)))\<rparr>,
            (newExpenses @ ?new, True, k + length ?new))"
    unfolding len assms(6)[symmetric] by (rule processRule_due[OF assms(1,2) p dd assms(8)])
  have stop: "localDay e (now e) < c0 + int (length ?new) * stepDays (frequency rule)"
    unfolding len assms(6)[symmetric] by (rule dueCount_stop(1)[OF assms(1) dd])
  from run cnt dates stop show ?thesis by blast
qed

text \<open>
  The dates on or east of Greenwich. Let a rule be active, with a frequency
  of the type and a due date that prints a day \<open>d0\<close> from 0001-01-01 to
  9999-12-31 not after today, and let the clock be more than 366 days before
  the end of the range of time values. Then the callback generates
  \<open>(today - d0) div step + 1\<close> expenses, the first dated with the due date
  itself and the \<open>i\<close>-th \<open>i\<close> steps later, none dated after today; the new due
  date is the next day of the cadence, which is after today, and the last
  run is today. In particular a rule due today generates exactly one
  expense, dated today.
\<close>

theorem dates_east_of_greenwich:
  assumes "0 \<le> tzOffset e" "tzOffset e < 1440"
    and "isFrequency (frequency rule)" "active rule"
    and "- 719162 \<le> d0" "d0 \<le> 2932896" "nextDueDate rule = formatDay d0"
    and "d0 \<le> localDay e (now e)" "now e + 366 * msPerDay \<le> maxTime"
  shows "\<exists>rule' new.
     processRule e (newExpenses, hasUpdates, k) rule =
       Some (rule', (newExpenses @ new, True, k + length new)) \<and>
     int (length new) = (localDay e (now e) - d0) div stepDays (frequency rule) + 1 \<and>
     map date new = map (\<lambda>i. formatDay (d0 + int i * stepDays (frequency rule))) [0..<length new] \<and>
     date (hd new) = nextDueDate rule \<and>
     (d0 = localDay e (now e) \<longrightarrow> length new = 1) \<and>
     rule' = rule\<lparr>nextDueDate := formatDay (d0 + int (length new) * stepDays (frequency rule)),
                    lastRun := Some (formatDay (localDay e (now e)))\<rparr> \<and>
     localDay e (now e) < d0 + int (length new) * stepDays (frequency rule)"
proof -
  have c0: "localDay e (d0 * msPerDay) = d0" using assms(1,2) by (rule localDay_midnight_east)
  from processRule_printed[OF assms(3-7) c0 assms(8,9), of newExpenses hasUpdates k]
  obtain rule' new where
    run: "processRule e (newExpenses, hasUpdates, k) rule =
            Some (rule', (newExpenses @ new, True, k + length new))" and
    cnt: "int (length new) = (localDay e (now e) - d0) div stepDays (frequency rule) + 1" and
    dates: "map date new =
            map (\<lambda>i. formatDay (d0 + int i * stepDays (frequency rule))) [0..<length new]" and
    r': "rule' = rule\<lparr>nextDueDate := formatDay (d0 + int (length new) * stepDays (frequency rule)),
                    lastRun := Some (formatDay (localDay e (now e)))\<rparr>" and
    stop: "localDay e (now e) < d0 + int (length new) * stepDays (frequency rule)"
    by blast
  have s: "0 < stepDays (frequency rule)" using assms(3) by (rule stepDays_pos)
  have "0 \<le> (localDay e (now e) - d0) div stepDays (frequency rule)"
    using assms(8) s by (simp add: pos_imp_zdiv_nonneg_iff)
  with cnt have ne: "new \<noteq> []" by auto
  then have "hd (map date new) = formatDay d0"
    unfolding dates by (simp add: hd_map upt_conv_Cons)
  then have first: "date (hd new) = nextDueDate rule"
    using ne by (simp add: hd_map assms(7))
  have one: "d0 = localDay e (now e) \<longrightarrow> length new = 1"
    using cnt by auto
  from run cnt dates first one r' stop show ?thesis by blast
qed

theorem dates_east_of_greenwich_witness:
  "0 \<le> tzOffset (envAt 330 (utc 2024 6 3 2)) \<and> tzOffset (envAt 330 (utc 2024 6 3 2)) < 1440 \<and>
   isFrequency (frequency (foodRule ''weekly'' ''2024-06-03'')) \<and>
   active (foodRule ''weekly'' ''2024-06-03'') \<and>
   - 719162 \<le> (19877::int) \<and> (19877::int) \<le> 2932896 \<and>
   nextDueDate (foodRule ''weekly'' ''2024-06-03'') = formatDay 19877 \<and>
   19877 \<le> localDay (envAt 330 (utc 2024 6 3 2)) (now (envAt 330 (utc 2024 6 3 2))) \<and>
   now (envAt 330 (utc 2024 6 3 2)) + 366 * msPerDay \<le> maxTime \<and>
   (\<exists>rule' new.
      processRule (envAt 330 (utc 2024 6 3 2)) ([], False, 0) (foodRule ''weekly'' ''2024-06-03'') =
        Some (rule', ([] @ new, True, 0 + length new)) \<and>
      length new = 1 \<and> date (hd new) = ''2024-06-03'' \<and> nextDueDate rule' = ''2024-06-10'')"
proof -
  let ?e = "envAt 330 (utc 2024 6 3 2)"
  let ?r = "foodRule ''weekly'' ''2024-06-03''"
  have h: "0 \<le> tzOffset ?e" "tzOffset ?e < 1440" "isFrequency (frequency ?r)" "active ?r"
    "- 719162 \<le> (19877::int)" "(19877::int) \<le> 2932896" "nextDueDate ?r = formatDay 19877"
    "19877 \<le> localDay ?e (now ?e)" "now ?e + 366 * msPerDay \<le> maxTime"
    by (simp_all add: envAt_fields foodRule_fields isFrequency_examples formatDay_examples
        localDay_utc_examples clock_examples[unfolded envAt_fields])
  from dates_east_of_greenwich[OF h, of "[]" False 0] obtain rule' new where
    p: "processRule ?e ([], False, 0) ?r = Some (rule', ([] @ new, True, 0 + length new))" and
    f: "date (hd new) = nextDueDate ?r" and
    o: "19877 = localDay ?e (now ?e) \<longrightarrow> length new = 1" and
    r: "rule' = ?r\<lparr>nextDueDate := formatDay (19877 + int (length new) * stepDays (frequency ?r)),
           lastRun := Some (formatDay (localDay ?e (now ?e)))\<rparr>"
    by blast
  from o have l: "length new = 1" by (simp add: envAt_fields localDay_utc_examples)
  have "nextDueDate rule' = ''2024-06-10''"
    unfolding r l by (simp add: foodRule_fields stepDays_examples formatDay_examples)
  moreover have "date (hd new) = ''2024-06-03''" using f by (simp add: foodRule_fields)
  ultimately show ?thesis using h p l by blast
qed

text \<open>
  The dates west of Greenwich. With a negative offset the same rule, at
  such a clock, yields
  expenses one day early: the first is dated the day before the due date,
  and a rule whose due date is tomorrow, as every rule is after a run,
  already generates an expense dated today.
\<close>

theorem dates_west_of_greenwich:
  assumes "- 1440 \<le> tzOffset e" "tzOffset e < 0"
    and "isFrequency (frequency rule)" "active rule"
    and "- 719162 \<le> d0" "d0 \<le> 2932896" "nextDueDate rule = formatDay d0"
    and "d0 - 1 \<le> localDay e (now e)" "now e + 366 * msPerDay \<le> maxTime"
  shows "\<exists>rule' new.
     processRule e (newExpenses, hasUpdates, k) rule =
       Some (rule', (newExpenses @ new, True, k + length new)) \<and>
     int (length new) = (localDay e (now e) - (d0 - 1)) div stepDays (frequency rule) + 1 \<and>
     map date new =
       map (\<lambda>i. formatDay (d0 - 1 + int i * stepDays (frequency rule))) [0..<length new] \<and>
     date (hd new) = formatDay (d0 - 1)"
proof -
  have c0: "localDay e (d0 * msPerDay) = d0 - 1"
    using assms(2,1) by (rule localDay_midnight_west)
  from processRule_printed[OF assms(3-7) c0 assms(8,9), of newExpenses hasUpdates k]
  obtain rule' new where
    run: "processRule e (newExpenses, hasUpdates, k) rule =
            Some (rule', (newExpenses @ new, True, k + length new))" and
    cnt: "int (length new) = (localDay e (now e) - (d0 - 1)) div stepDays (frequency rule) + 1" and
    dates: "map date new =
            map (\<lambda>i. formatDay (d0 - 1 + int i * stepDays (frequency rule))) [0..<length new]"
    by blast
  have s: "0 < stepDays (frequency rule)" using assms(3) by (rule stepDays_pos)
  have "0 \<le> (localDay e (now e) - (d0 - 1)) div stepDays (frequency rule)"
    using assms(8) s by (simp add: pos_imp_zdiv_nonneg_iff)
  with cnt have ne: "new \<noteq> []" by auto
  then have "hd (map date new) = formatDay (d0 - 1)"
    unfolding dates by (simp add: hd_map upt_conv_Cons)
  then have first: "date (hd new) = formatDay (d0 - 1)"
    using ne by (simp add: hd_map)
  from run cnt dates first show ?thesis by blast
qed

theorem dates_west_of_greenwich_witness:
  "- 1440 \<le> tzOffset (envAt (- 300) (utc 2024 6 3 17)) \<and> tzOffset (envAt (- 300) (utc 2024 6 3 17)) < 0 \<and>
   isFrequency (frequency (foodRule ''daily'' ''2024-06-04'')) \<and>
   active (foodRule ''daily'' ''2024-06-04'') \<and>
   - 719162 \<le> (19878::int) \<and> (19878::int) \<le> 2932896 \<and>
   nextDueDate (foodRule ''daily'' ''2024-06-04'') = formatDay 19878 \<and>
   19878 - 1 \<le> localDay (envAt (- 300) (utc 2024 6 3 17)) (now (envAt (- 300) (utc 2024 6 3 17))) \<and>
   now (envAt (- 300) (utc 2024 6 3 17)) + 366 * msPerDay \<le> maxTime \<and>
   (\<exists>rule' new.
      processRule (envAt (- 300) (utc 2024 6 3 17)) ([], False, 0) (foodRule ''daily'' ''2024-06-04'') =
        Some (rule', ([] @ new, True, 0 + length new)) \<and>
      date (hd new) = ''2024-06-03'')"
proof -
  let ?e = "envAt (- 300) (utc 2024 6 3 17)"
  let ?r = "foodRule ''daily'' ''2024-06-04''"
  have h: "- 1440 \<le> tzOffset ?e" "tzOffset ?e < 0" "isFrequency (frequency ?r)" "active ?r"
    "- 719162 \<le> (19878::int)" "(19878::int) \<le> 2932896" "nextDueDate ?r = formatDay 19878"
    "19878 - 1 \<le> localDay ?e (now ?e)" "now ?e + 366 * msPerDay \<le> maxTime"
    by (simp_all add: envAt_fields foodRule_fields isFrequency_examples formatDay_examples
        localDay_west_examples clock_examples[unfolded envAt_fields])
  from dates_west_of_greenwich[OF h, of "[]" False 0] obtain rule' new where
    p: "processRule ?e ([], False, 0) ?r = Some (rule', ([] @ new, True, 0 + length new))" and
    f: "date (hd new) = formatDay (19878 - 1)"
    by blast
  from f have "date (hd new) = ''2024-06-03''" by (simp add: formatDay_examples)
  with h p show ?thesis by blast
qed

text \<open>
  The monthly example on or east of Greenwich: at any time of the local day
  2024-03-01 an active monthly rule due on 2024-01-31 yields expenses dated
  2024-01-31 and 2024-03-01, thirty days later, and none dated 2024-02-29;
  its due date becomes 2024-03-31.
\<close>

theorem monthly_drift_east_of_greenwich:
  assumes "0 \<le> tzOffset e" "tzOffset e < 1440"
    and "localDay e (now e) = daysFromCivil 2024 3 1"
    and "frequency rule = ''monthly''" "nextDueDate rule = ''2024-01-31''" "active rule"
  shows "\<exists>res. materialize e [rule] = Some res \<and>
     map date (newTransactions res) = [''2024-01-31'', ''2024-03-01''] \<and>
     updatedRules res = [rule\<lparr>nextDueDate := ''2024-03-31'', lastRun := Some ''2024-03-01''\<rparr>]"
proof -
  have d: "localDay e (19753 * msPerDay) = 19753"
    using assms(1,2) by (rule localDay_midnight_east)
  have t: "localDay e (now e) = 19783"
    using assms(3) by (simp add: daysFromCivil_examples)
  have 1: "isFrequency (frequency rule)" "active rule"
    "newDate e (nextDueDate rule) = Some (19753 * msPerDay)"
    using assms(4-6) by (simp_all add: isFrequency_examples newDate_examples)
  have 2: "localDay e (19753 * msPerDay) \<le> localDay e (now e)"
    by (simp add: d t)
  have 3: "dueCount e (frequency rule) (19753 * msPerDay) = 2"
    by (simp add: dueCount_def d t assms(4) stepDays_examples)
  have clk: "now e + 366 * msPerDay \<le> maxTime"
    using assms(1) t by (intro clock_of_day) simp_all
  show ?thesis
    unfolding materialize_single_due[OF 1 2 clk] 3
    by (simp add: d t formatDay_examples occurrences_def upt_examples newExpense_fields
        assms(4) stepDays_examples)
qed

theorem monthly_drift_east_of_greenwich_witness:
  "0 \<le> tzOffset (envAt 330 (utc 2024 3 1 2)) \<and> tzOffset (envAt 330 (utc 2024 3 1 2)) < 1440 \<and>
   localDay (envAt 330 (utc 2024 3 1 2)) (now (envAt 330 (utc 2024 3 1 2))) = daysFromCivil 2024 3 1 \<and>
   frequency (foodRule ''monthly'' ''2024-01-31'') = ''monthly'' \<and>
   nextDueDate (foodRule ''monthly'' ''2024-01-31'') = ''2024-01-31'' \<and>
   active (foodRule ''monthly'' ''2024-01-31'') \<and>
   (\<exists>res. materialize (envAt 330 (utc 2024 3 1 2)) [foodRule ''monthly'' ''2024-01-31''] = Some res \<and>
      map date (newTransactions res) = [''2024-01-31'', ''2024-03-01''] \<and>
      updatedRules res = [(foodRule ''monthly'' ''2024-01-31'')
                            \<lparr>nextDueDate := ''2024-03-31'', lastRun := Some ''2024-03-01''\<rparr>])"
proof -
  have h: "0 \<le> tzOffset (envAt 330 (utc 2024 3 1 2))" "tzOffset (envAt 330 (utc 2024 3 1 2)) < 1440"
    "localDay (envAt 330 (utc 2024 3 1 2)) (now (envAt 330 (utc 2024 3 1 2))) = daysFromCivil 2024 3 1"
    "frequency (foodRule ''monthly'' ''2024-01-31'') = ''monthly''"
    "nextDueDate (foodRule ''monthly'' ''2024-01-31'') = ''2024-01-31''"
    "active (foodRule ''monthly'' ''2024-01-31'')"
    by (simp_all add: envAt_fields foodRule_fields localDay_utc_examples daysFromCivil_examples)
  from monthly_drift_east_of_greenwich[OF h] h show ?thesis by blast
qed

end
